theory Spec2Isabelle
  imports Complex_Main
begin

section \<open>FilterObjects: selection strategies and relabeling\<close>

text \<open>
  A shallow embedding of the algorithmic core of
  \<^verbatim>\<open>cellprofiler/modules/filterobjects.py\<close>: the four \<^verbatim>\<open>keep_*\<close> strategies and
  the relabeling loop of \<^verbatim>\<open>FilterObjects.run\<close>. Lookups in the workspace (measurement
  vectors, label matrices) are passed in as arguments.
\<close>

subsection \<open>Python and numpy values\<close>

datatype py_error = IndexError | ValueError

text \<open>
  A float64 as far as the module looks at it: the module only compares measurements
  and tests them for NaN. Comparison of finite doubles is exact, so the finite values
  are rationals; a comparison with NaN is false.
\<close>

datatype np_float = NaN | NegInf | Finite rat | PosInf

fun fl_lt :: "np_float \<Rightarrow> np_float \<Rightarrow> bool" where
  "fl_lt NaN _ = False"
| "fl_lt _ NaN = False"
| "fl_lt _ NegInf = False"
| "fl_lt NegInf _ = True"
| "fl_lt PosInf _ = False"
| "fl_lt (Finite a) (Finite b) = (a < b)"
| "fl_lt (Finite a) PosInf = True"

fun fl_le :: "np_float \<Rightarrow> np_float \<Rightarrow> bool" where
  "fl_le NaN _ = False"
| "fl_le _ NaN = False"
| "fl_le NegInf _ = True"
| "fl_le _ PosInf = True"
| "fl_le PosInf _ = False"
| "fl_le (Finite a) (Finite b) = (a \<le> b)"
| "fl_le (Finite a) NegInf = False"

definition fl_gt :: "np_float \<Rightarrow> np_float \<Rightarrow> bool" where
  "fl_gt a b = fl_lt b a"

definition fl_ge :: "np_float \<Rightarrow> np_float \<Rightarrow> bool" where
  "fl_ge a b = fl_le b a"

definition isnan :: "np_float \<Rightarrow> bool" where
  "isnan x = (x = NaN)"

text \<open>A label matrix: rows of integer pixel values, 0 for background.\<close>

type_synonym raster = "int list list"

text \<open>
  Two numpy behaviours that \<^verbatim>\<open>keep_within_limits\<close> meets changed after the module was
  written. \<open>Legacy\<close> is numpy before 1.13: a boolean index shorter than the indexed
  array is read as the positions of its True entries, and \<^verbatim>\<open>nonzero\<close> takes a 0-d array
  as a 1-d one. \<open>Current\<close> is numpy from 1.18 on: a boolean index of the wrong length
  raises IndexError unless its length is 0, and \<^verbatim>\<open>argwhere\<close> of a 0-d array has no
  column to select.
\<close>

datatype numpy_era = Legacy | Current

text \<open>\<^verbatim>\<open>a[i]\<close> on an axis of length \<open>n\<close>: a negative index counts from the end.\<close>

definition np_position :: "nat \<Rightarrow> int \<Rightarrow> py_error + nat" where
  "np_position n i =
     (let j = (if i < 0 then i + int n else i)
      in if 0 \<le> j \<and> j < int n then Inr (nat j) else Inl IndexError)"

definition np_get :: "'a list \<Rightarrow> int \<Rightarrow> py_error + 'a" where
  "np_get a i = (case np_position (length a) i of Inl e \<Rightarrow> Inl e | Inr j \<Rightarrow> Inr (a ! j))"

text \<open>Running a fallible function over a list stops at the first error.\<close>

fun map_err :: "('a \<Rightarrow> py_error + 'b) \<Rightarrow> 'a list \<Rightarrow> py_error + 'b list" where
  "map_err f [] = Inr []"
| "map_err f (x # xs) =
     (case f x of
        Inl e \<Rightarrow> Inl e
      | Inr y \<Rightarrow> (case map_err f xs of Inl e \<Rightarrow> Inl e | Inr ys \<Rightarrow> Inr (y # ys)))"

text \<open>\<^verbatim>\<open>table[labels]\<close> with a 2-d integer array as the index.\<close>

definition np_take :: "'a list \<Rightarrow> raster \<Rightarrow> py_error + 'a list list" where
  "np_take table labels = map_err (map_err (np_get table)) labels"

text \<open>\<^verbatim>\<open>np.max\<close> of a label matrix; a matrix with no pixel raises ValueError.\<close>

definition np_max :: "raster \<Rightarrow> py_error + int" where
  "np_max labels =
     (case concat labels of [] \<Rightarrow> Inl ValueError | x # xs \<Rightarrow> Inr (fold max xs x))"

text \<open>\<^verbatim>\<open>np.zeros((n,), int)\<close>; a negative dimension raises ValueError.\<close>

definition np_zeros :: "int \<Rightarrow> py_error + int list" where
  "np_zeros n = (if n < 0 then Inl ValueError else Inr (replicate (nat n) 0))"

text \<open>
  \<^verbatim>\<open>a[indexes] = values\<close> with an integer index list: the writes happen in order, an
  index out of range raises IndexError, too few values ValueError.
\<close>

fun np_put :: "int list \<Rightarrow> int list \<Rightarrow> int list \<Rightarrow> py_error + int list" where
  "np_put a [] _ = Inr a"
| "np_put a (i # rest) [] = Inl ValueError"
| "np_put a (i # rest) (v # vs) =
     (case np_position (length a) i of
        Inl e \<Rightarrow> Inl e
      | Inr j \<Rightarrow> np_put (a[j := v]) rest vs)"

text \<open>\<^verbatim>\<open>np.arange(1, k + 1)\<close>.\<close>

definition arange1 :: "nat \<Rightarrow> int list" where
  "arange1 k = map (\<lambda>j. int j + 1) [0..<k]"

text \<open>\<^verbatim>\<open>np.argwhere(hits)[:,0] + 1\<close> for a 1-d boolean array.\<close>

definition argwhere1 :: "bool list \<Rightarrow> int list" where
  "argwhere1 hits = map (\<lambda>j. int j + 1) (filter (\<lambda>j. hits ! j) [0..<length hits])"

text \<open>
  \<^verbatim>\<open>hits[mask] = False\<close> with a boolean mask. With a mask of the array's length it
  clears the marked entries. Otherwise \<open>Current\<close> compares the two lengths only when
  the mask's length is greater than 0: a mask of length 0 changes nothing, any other
  raises IndexError. \<open>Legacy\<close> clears the positions of the mask's True entries,
  raising IndexError for a position beyond the array.
\<close>

definition mask_clear :: "numpy_era \<Rightarrow> bool list \<Rightarrow> bool list \<Rightarrow> py_error + bool list" where
  "mask_clear era hits msk =
     (if length msk = length hits then Inr (map (\<lambda>(h, m). h \<and> \<not> m) (zip hits msk))
      else if era = Current then (if length msk = 0 then Inr hits else Inl IndexError)
      else if \<exists>j \<in> set [0..<length msk]. msk ! j \<and> length hits \<le> j then Inl IndexError
      else Inr (map (\<lambda>j. hits ! j \<and> \<not> (j < length msk \<and> msk ! j)) [0..<length hits]))"

subsection \<open>The relabeling step of \<^verbatim>\<open>run\<close>\<close>

text \<open>
  \<^verbatim>\<open>
  new_object_count = len(indexes)
  max_label = np.max(src_objects.segmented)
  label_indexes = np.zeros((max_label+1,),int)
  label_indexes[indexes] = np.arange(1,new_object_count+1)
  \<close>
\<close>

definition build_label_indexes :: "int \<Rightarrow> int list \<Rightarrow> py_error + int list" where
  "build_label_indexes max_label indexes =
     (case np_zeros (max_label + 1) of
        Inl e \<Rightarrow> Inl e
      | Inr label_indexes \<Rightarrow> np_put label_indexes indexes (arange1 (length indexes)))"

text \<open>
  \<^verbatim>\<open>
  target_labels[target_labels > max_label] = 0
  target_labels = label_indexes[target_labels]
  \<close>
\<close>

definition zero_above :: "int \<Rightarrow> raster \<Rightarrow> raster" where
  "zero_above max_label labels = map (map (\<lambda>v. if v > max_label then 0 else v)) labels"

definition relabel_raster :: "int \<Rightarrow> int list \<Rightarrow> raster \<Rightarrow> py_error + raster" where
  "relabel_raster max_label label_indexes labels =
     np_take label_indexes (zero_above max_label labels)"

text \<open>
  The part of \<^verbatim>\<open>run\<close> after the strategy has returned \<open>indexes\<close>: the table is built
  from the primary label matrix and applied to it and to each additional one, in the
  order of \<^verbatim>\<open>object_list\<close>. The result is the table and the new label matrices.
\<close>

definition relabel_all :: "int list \<Rightarrow> raster \<Rightarrow> raster list \<Rightarrow> py_error + (int list \<times> raster list)" where
  "relabel_all indexes primary additional =
     (case np_max primary of
        Inl e \<Rightarrow> Inl e
      | Inr max_label \<Rightarrow>
          (case build_label_indexes max_label indexes of
             Inl e \<Rightarrow> Inl e
           | Inr label_indexes \<Rightarrow>
               (case map_err (relabel_raster max_label label_indexes) (primary # additional) of
                  Inl e \<Rightarrow> Inl e
                | Inr targets \<Rightarrow> Inr (label_indexes, targets))))"

subsection \<open>\<^verbatim>\<open>keep_one\<close>\<close>

text \<open>
  \<^verbatim>\<open>np.argmax\<close> and \<^verbatim>\<open>np.argmin\<close> on a float64 vector, as numpy's scan does it: the
  candidate is replaced by a later entry only when \<^verbatim>\<open>!(x <= mp)\<close> (for argmin
  \<^verbatim>\<open>!(x >= mp)\<close>), and the scan stops at the first NaN. An empty vector raises
  ValueError.
\<close>

fun argmax_loop :: "np_float \<Rightarrow> nat \<Rightarrow> nat \<Rightarrow> np_float list \<Rightarrow> nat" where
  "argmax_loop mp max_ind i [] = max_ind"
| "argmax_loop mp max_ind i (x # xs) =
     (if \<not> fl_le x mp
      then (if isnan x then i else argmax_loop x i (Suc i) xs)
      else argmax_loop mp max_ind (Suc i) xs)"

fun argmin_loop :: "np_float \<Rightarrow> nat \<Rightarrow> nat \<Rightarrow> np_float list \<Rightarrow> nat" where
  "argmin_loop mp min_ind i [] = min_ind"
| "argmin_loop mp min_ind i (x # xs) =
     (if \<not> fl_ge x mp
      then (if isnan x then i else argmin_loop x i (Suc i) xs)
      else argmin_loop mp min_ind (Suc i) xs)"

definition np_argmax :: "np_float list \<Rightarrow> py_error + nat" where
  "np_argmax v =
     (case v of
        [] \<Rightarrow> Inl ValueError
      | x # xs \<Rightarrow> Inr (if isnan x then 0 else argmax_loop x 0 1 xs))"

definition np_argmin :: "np_float list \<Rightarrow> py_error + nat" where
  "np_argmin v =
     (case v of
        [] \<Rightarrow> Inl ValueError
      | x # xs \<Rightarrow> Inr (if isnan x then 0 else argmin_loop x 0 1 xs))"

text \<open>
  \<^verbatim>\<open>
  if len(values) == 0:
      return np.array([], int)
  best_idx = (np.argmax(values) if self.filter_choice == FI_MAXIMAL
              else np.argmin(values)) + 1
  return np.array([best_idx], int)
  \<close>
\<close>

definition keep_one :: "bool \<Rightarrow> np_float list \<Rightarrow> py_error + int list" where
  "keep_one wants_max vals =
     (if length vals = 0 then Inr []
      else (case (if wants_max then np_argmax vals else np_argmin vals) of
              Inl e \<Rightarrow> Inl e
            | Inr best \<Rightarrow> Inr [int best + 1]))"

subsection \<open>\<^verbatim>\<open>keep_per_object\<close>\<close>

text \<open>
  \<^verbatim>\<open>scipy.ndimage.maximum_position\<close> and \<^verbatim>\<open>minimum_position\<close> are library functions:
  they are parameters of the model. Each takes the per-pixel values, the enclosing
  labels and the list of enclosing label numbers and returns one position per label
  number, or raises.
\<close>

type_synonym position_fn =
  "np_float list list \<Rightarrow> raster \<Rightarrow> int list \<Rightarrow> py_error + (nat \<times> nat) list"

text \<open>
  \<^verbatim>\<open>
  tricky_values = np.zeros((len(values)+1,))
  tricky_values[1:]=values
  if wants_max: tricky_values[0] = -np.Inf
  else:         tricky_values[0] = np.Inf
  \<close>
\<close>

definition tricky_values :: "bool \<Rightarrow> np_float list \<Rightarrow> np_float list" where
  "tricky_values wants_max vals = (if wants_max then NegInf else PosInf) # vals"

text \<open>\<^verbatim>\<open>src_labels[r, c]\<close> at a position cast to unsigned.\<close>

definition pixel_at :: "raster \<Rightarrow> nat \<times> nat \<Rightarrow> py_error + int" where
  "pixel_at labels p =
     (if fst p < length labels \<and> snd p < length (labels ! fst p)
      then Inr (labels ! fst p ! snd p) else Inl IndexError)"

text \<open>
  The return statement of \<^verbatim>\<open>keep_per_object\<close>:
  \<^verbatim>\<open>return indexes[1:] if len(indexes)>0 and indexes[0] == 0 else indexes\<close>
\<close>

definition drop_leading_zero :: "int list \<Rightarrow> int list" where
  "drop_leading_zero indexes =
     (if length indexes > 0 \<and> hd indexes = 0 then tl indexes else indexes)"

text \<open>
  The body of \<^verbatim>\<open>keep_per_object\<close>. \<^verbatim>\<open>best_pos[:,0]\<close> needs a 2-d array: with no position
  at all \<^verbatim>\<open>np.array(best_pos)\<close> is 1-d and the subscript raises IndexError. Before the
  return statement the labels found are made a sorted list without repetition:
  \<^verbatim>\<open>
  indexes = list(set(indexes))
  indexes.sort()
  \<close>
\<close>

definition keep_per_object ::
  "position_fn \<Rightarrow> position_fn \<Rightarrow> bool \<Rightarrow> np_float list \<Rightarrow> raster \<Rightarrow> raster \<Rightarrow> py_error + int list" where
  "keep_per_object maximum_position minimum_position wants_max vals src_labels enclosing_labels =
     (case np_max enclosing_labels of
        Inl e \<Rightarrow> Inl e
      | Inr enclosing_max \<Rightarrow>
          if enclosing_max = 0 then Inr []
          else
            (case np_take (tricky_values wants_max vals) src_labels of
               Inl e \<Rightarrow> Inl e
             | Inr src_values \<Rightarrow>
                 (case (if wants_max then maximum_position else minimum_position)
                         src_values enclosing_labels (map int [1..<nat (enclosing_max + 1)]) of
                    Inl e \<Rightarrow> Inl e
                  | Inr best_pos \<Rightarrow>
                      if best_pos = [] then Inl IndexError
                      else
                        (case map_err (pixel_at src_labels) best_pos of
                           Inl e \<Rightarrow> Inl e
                         | Inr found \<Rightarrow>
                             Inr (drop_leading_zero (sort (remdups found)))))))"

subsection \<open>\<^verbatim>\<open>keep_within_limits\<close>\<close>

text \<open>One entry of \<^verbatim>\<open>self.measurements\<close>, with the current values of its measurement.\<close>

record measurement_group =
  group_values :: "np_float list"
  wants_minimum :: bool
  min_limit :: np_float
  wants_maximum :: bool
  max_limit :: np_float

text \<open>
  One round of the loop over the groups; \<open>hits\<close> is \<open>None\<close> before the first round.
  \<^verbatim>\<open>
  if hits is None:
      hits = np.ones(len(values), bool)
  elif len(hits) < len(values):
      temp = np.ones(len(values), bool)
      temp[~ hits] = False
      hits = temp
  if group.wants_minimum.value:
      hits[values < low_limit] = False
  if group.wants_maximum.value:
      hits[values > high_limit] = False
  \<close>
\<close>

definition limits_step ::
  "numpy_era \<Rightarrow> bool list option \<Rightarrow> measurement_group \<Rightarrow> py_error + bool list option" where
  "limits_step era hits g =
     (case (case hits of
              None \<Rightarrow> Inr (replicate (length (group_values g)) True)
            | Some h \<Rightarrow>
                if length h < length (group_values g)
                then mask_clear era (replicate (length (group_values g)) True) (map Not h)
                else Inr h) of
        Inl e \<Rightarrow> Inl e
      | Inr h1 \<Rightarrow>
          (case (if wants_minimum g
                 then mask_clear era h1 (map (\<lambda>v. fl_lt v (min_limit g)) (group_values g))
                 else Inr h1) of
             Inl e \<Rightarrow> Inl e
           | Inr h2 \<Rightarrow>
               (case (if wants_maximum g
                      then mask_clear era h2 (map (\<lambda>v. fl_gt v (max_limit g)) (group_values g))
                      else Inr h2) of
                  Inl e \<Rightarrow> Inl e
                | Inr h3 \<Rightarrow> Inr (Some h3))))"

fun limits_loop ::
  "numpy_era \<Rightarrow> bool list option \<Rightarrow> measurement_group list \<Rightarrow> py_error + bool list option" where
  "limits_loop era hits [] = Inr hits"
| "limits_loop era hits (g # gs) =
     (case limits_step era hits g of
        Inl e \<Rightarrow> Inl e
      | Inr hits' \<Rightarrow> limits_loop era hits' gs)"

text \<open>
  After the loop, \<^verbatim>\<open>np.argwhere(hits)[:,0] + 1\<close>. With no group at all \<open>hits\<close> is still
  \<open>None\<close>: \<open>Legacy\<close> gives no index, \<open>Current\<close> raises IndexError on the subscript.
\<close>

definition keep_within_limits :: "numpy_era \<Rightarrow> measurement_group list \<Rightarrow> py_error + int list" where
  "keep_within_limits era groups =
     (case limits_loop era None groups of
        Inl e \<Rightarrow> Inl e
      | Inr None \<Rightarrow> (if era = Current then Inl IndexError else Inr [])
      | Inr (Some hits) \<Rightarrow> Inr (argwhere1 hits))"

subsection \<open>\<^verbatim>\<open>keep_by_rules\<close>\<close>

text \<open>
  The score matrix has one row per object and two columns, the positive and the
  negative score.
  \<^verbatim>\<open>
  scores[np.isnan(scores[:,0]),0] = -np.Infinity
  scores[np.isnan(scores[:,1]),1] = np.Infinity
  hits = scores[:,0] > scores[:,1]
  indexes = np.argwhere(hits)[:,0] + 1
  \<close>
\<close>

definition coerce_positive :: "(np_float \<times> np_float) list \<Rightarrow> (np_float \<times> np_float) list" where
  "coerce_positive scores = map (\<lambda>row. (if isnan (fst row) then NegInf else fst row, snd row)) scores"

definition coerce_negative :: "(np_float \<times> np_float) list \<Rightarrow> (np_float \<times> np_float) list" where
  "coerce_negative scores = map (\<lambda>row. (fst row, if isnan (snd row) then PosInf else snd row)) scores"

definition keep_by_rules :: "(np_float \<times> np_float) list \<Rightarrow> int list" where
  "keep_by_rules scores =
     (let scores1 = coerce_positive scores;
          scores2 = coerce_negative scores1;
          hits = map (\<lambda>row. fl_gt (fst row) (snd row)) scores2
      in argwhere1 hits)"

subsection \<open>\<^verbatim>\<open>run\<close>\<close>

datatype rules_or_measurement = ROM_RULES | ROM_MEASUREMENTS

datatype filter_choice =
  FI_MINIMAL | FI_MAXIMAL | FI_MINIMAL_PER_OBJECT | FI_MAXIMAL_PER_OBJECT | FI_LIMITS

text \<open>
  The settings \<^verbatim>\<open>run\<close> reads and what the workspace holds for them: the score matrix
  of the rules, the measurement groups with their current values, the label matrix
  of the filtered objects, of the enclosing objects and of the additional objects.
\<close>

record workspace =
  rules_or_measurement :: rules_or_measurement
  filter_choice :: filter_choice
  rule_scores :: "(np_float \<times> np_float) list"
  measurements :: "measurement_group list"
  segmented :: raster
  enclosing_segmented :: raster
  additional_segmented :: "raster list"

text \<open>The strategy dispatch at the head of \<^verbatim>\<open>run\<close>; \<^verbatim>\<open>self.measurements[0]\<close> raises on an empty list.\<close>

definition select_indexes ::
  "numpy_era \<Rightarrow> position_fn \<Rightarrow> position_fn \<Rightarrow> workspace \<Rightarrow> py_error + int list" where
  "select_indexes era maximum_position minimum_position w =
     (if rules_or_measurement w = ROM_RULES then Inr (keep_by_rules (rule_scores w))
      else if filter_choice w = FI_MINIMAL \<or> filter_choice w = FI_MAXIMAL then
        (case measurements w of
           [] \<Rightarrow> Inl IndexError
         | g # _ \<Rightarrow> keep_one (filter_choice w = FI_MAXIMAL) (group_values g))
      else if filter_choice w = FI_MINIMAL_PER_OBJECT \<or> filter_choice w = FI_MAXIMAL_PER_OBJECT then
        (case measurements w of
           [] \<Rightarrow> Inl IndexError
         | g # _ \<Rightarrow>
             keep_per_object maximum_position minimum_position
               (filter_choice w = FI_MAXIMAL_PER_OBJECT) (group_values g)
               (segmented w) (enclosing_segmented w))
      else keep_within_limits era (measurements w))"

definition run ::
  "numpy_era \<Rightarrow> position_fn \<Rightarrow> position_fn \<Rightarrow> workspace \<Rightarrow> py_error + (int list \<times> raster list)" where
  "run era maximum_position minimum_position w =
     (case select_indexes era maximum_position minimum_position w of
        Inl e \<Rightarrow> Inl e
      | Inr indexes \<Rightarrow> relabel_all indexes (segmented w) (additional_segmented w))"
section \<open>Properties\<close>

subsection \<open>Indexing and scatter writes\<close>

lemma np_position_nonneg: "0 \<le> i \<Longrightarrow> i < int n \<Longrightarrow> np_position n i = Inr (nat i)"
  by (simp add: np_position_def)

lemma np_position_Inl: "np_position n i = Inl e \<longleftrightarrow> e = IndexError \<and> (int n \<le> i \<or> i < - int n)"
  by (auto simp: np_position_def Let_def)

lemma np_position_Inr: "np_position n i = Inr j \<longleftrightarrow> - int n \<le> i \<and> i < int n \<and> j = nat (if i < 0 then i + int n else i)"
  by (auto simp: np_position_def Let_def)

lemma np_put_length: "np_put a idx vs = Inr t \<Longrightarrow> length t = length a"
  by (induction a idx vs rule: np_put.induct) (auto split: sum.splits)

lemma np_put_out_of_range:
  "length idx \<le> length vs \<Longrightarrow> \<exists>i \<in> set idx. int (length a) \<le> i \<or> i < - int (length a) \<Longrightarrow>
   np_put a idx vs = Inl IndexError"
proof (induction a idx vs rule: np_put.induct)
  case (3 a i rest v vs)
  show ?case
  proof (cases "np_position (length a) i")
    case (Inl e)
    moreover from Inl have "e = IndexError" by (simp add: np_position_Inl)
    ultimately show ?thesis by simp
  next
    case (Inr j)
    then have "\<not> (int (length a) \<le> i \<or> i < - int (length a))"
      by (auto simp: np_position_Inr)
    with 3 Inr show ?thesis by auto
  qed
qed auto

lemma np_put_in_range:
  "length idx = length vs \<Longrightarrow> \<forall>i \<in> set idx. 0 \<le> i \<and> i < int (length a) \<Longrightarrow> distinct idx \<Longrightarrow>
   \<exists>t. np_put a idx vs = Inr t \<and> length t = length a \<and>
       (\<forall>k < length idx. t ! nat (idx ! k) = vs ! k) \<and>
       (\<forall>j < length a. int j \<notin> set idx \<longrightarrow> t ! j = a ! j)"
proof (induction a idx vs rule: np_put.induct)
  case (1 a uu)
  then show ?case by simp
next
  case (2 a i rest)
  then show ?case by simp
next
  case (3 a i rest v vs)
  have pos: "np_position (length a) i = Inr (nat i)"
    using 3(3) by (simp add: np_position_nonneg)
  from 3 pos obtain t where t: "np_put (a[nat i := v]) rest vs = Inr t" "length t = length a"
    "\<forall>k < length rest. t ! nat (rest ! k) = vs ! k"
    "\<forall>j < length a. int j \<notin> set rest \<longrightarrow> t ! j = (a[nat i := v]) ! j"
    by force
  have "i \<notin> set rest" using 3(4) by simp
  then have ti: "t ! nat i = v" 
  proof -
    have "nat i < length a" using 3(3) by auto
    then show ?thesis using t(4)[rule_format, of "nat i"] \<open>i \<notin> set rest\<close> 3(3) by simp
  qed
  have "\<forall>k < length (i # rest). t ! nat ((i # rest) ! k) = (v # vs) ! k"
  proof (intro allI impI)
    fix k assume "k < length (i # rest)"
    then show "t ! nat ((i # rest) ! k) = (v # vs) ! k"
      using ti t(3) by (cases k) auto
  qed
  moreover have "\<forall>j < length a. int j \<notin> set (i # rest) \<longrightarrow> t ! j = a ! j"
  proof (intro allI impI)
    fix j assume j: "j < length a" "int j \<notin> set (i # rest)"
    then have "nat i \<noteq> j" using 3(3) by auto
    then have "(a[nat i := v]) ! j = a ! j" by simp
    then show "t ! j = a ! j" using t(4) j by simp
  qed
  ultimately show ?case using t(1,2) pos by simp
qed

lemma np_put_succeeds:
  "length idx = length vs \<Longrightarrow> \<forall>i \<in> set idx. - int (length a) \<le> i \<and> i < int (length a) \<Longrightarrow>
   \<exists>t. np_put a idx vs = Inr t"
proof (induction a idx vs rule: np_put.induct)
  case (3 a i rest v vs)
  then obtain j where j: "np_position (length a) i = Inr j"
    by (auto simp: np_position_Inr)
  with 3 show ?case by auto
qed auto

lemma length_arange1 [simp]: "length (arange1 k) = k"
  by (simp add: arange1_def)

lemma nth_arange1 [simp]: "j < k \<Longrightarrow> arange1 k ! j = int j + 1"
  by (simp add: arange1_def)

lemma strictly_increasing_nth:
  assumes "sorted_wrt (<) (xs :: int list)" "j < length xs" "k < length xs" "xs ! j < xs ! k"
  shows "j < k"
proof (rule ccontr)
  assume "\<not> j < k"
  then have "k = j \<or> k < j" by auto
  then show False
  proof
    assume "k = j" with assms(4) show False by simp
  next
    assume "k < j"
    then have "xs ! k < xs ! j" using assms(1,2) by (simp add: sorted_wrt_nth_less)
    with assms(4) show False by simp
  qed
qed

subsection \<open>The remap table\<close>

lemma build_label_indexes_survivors:
  assumes "0 \<le> max_label"
    and "sorted_wrt (<) survivors"
    and "\<forall>s \<in> set survivors. 1 \<le> s \<and> s \<le> max_label"
  shows "\<exists>remap. build_label_indexes max_label survivors = Inr remap \<and>
           length remap = nat max_label + 1 \<and>
           remap ! 0 = 0 \<and>
           (\<forall>k < length survivors. remap ! nat (survivors ! k) = int k + 1) \<and>
           (\<forall>j \<le> nat max_label. int j \<notin> set survivors \<longrightarrow> remap ! j = 0) \<and>
           (\<forall>a \<in> set survivors. \<forall>b \<in> set survivors. a < b \<longrightarrow> remap ! nat a < remap ! nat b)"
proof -
  let ?zeros = "replicate (nat (max_label + 1)) (0::int)"
  have len: "length ?zeros = nat max_label + 1" using assms(1) by (simp add: nat_add_distrib)
  have zeros: "np_zeros (max_label + 1) = Inr ?zeros"
    using assms(1) by (simp add: np_zeros_def)
  have dist: "distinct survivors"
    using assms(2) by (simp add: strict_sorted_iff)
  have range: "\<forall>i \<in> set survivors. 0 \<le> i \<and> i < int (length ?zeros)"
    using assms(1,3) by auto
  from np_put_in_range[of survivors "arange1 (length survivors)" ?zeros, OF _ range dist]
  obtain remap where r: "np_put ?zeros survivors (arange1 (length survivors)) = Inr remap"
    "length remap = length ?zeros"
    "\<forall>k < length survivors. remap ! nat (survivors ! k) = arange1 (length survivors) ! k"
    "\<forall>j < length ?zeros. int j \<notin> set survivors \<longrightarrow> remap ! j = ?zeros ! j"
    by auto
  have build: "build_label_indexes max_label survivors = Inr remap"
    by (simp add: build_label_indexes_def zeros r(1))
  have nth: "\<forall>k < length survivors. remap ! nat (survivors ! k) = int k + 1"
    using r(3) by simp
  have other: "\<forall>j \<le> nat max_label. int j \<notin> set survivors \<longrightarrow> remap ! j = 0"
  proof (intro allI impI)
    fix j assume j: "j \<le> nat max_label" "int j \<notin> set survivors"
    then have "j < length ?zeros" using len by simp
    then show "remap ! j = 0" using r(4) j(2) by simp
  qed
  have "int 0 \<notin> set survivors" using assms(3) by auto
  then have zero: "remap ! 0 = 0" using other by simp
  have order: "\<forall>a \<in> set survivors. \<forall>b \<in> set survivors. a < b \<longrightarrow> remap ! nat a < remap ! nat b"
  proof (intro ballI impI)
    fix a b assume "a \<in> set survivors" "b \<in> set survivors" "a < b"
    then obtain j k where jk: "j < length survivors" "survivors ! j = a"
      "k < length survivors" "survivors ! k = b"
      by (auto simp: in_set_conv_nth)
    with \<open>a < b\<close> have "j < k" using strictly_increasing_nth[OF assms(2), of j k] by simp
    then show "remap ! nat a < remap ! nat b" using nth jk by auto
  qed
  show ?thesis using build r(2) len zero nth other order by simp
qed

text \<open>
  Claim C1. For a non-negative \<open>max_label\<close> and a strictly increasing list of survivors
  in \<open>[1, max_label]\<close>, building the table succeeds; the table has \<open>max_label + 1\<close>
  entries, maps 0 to 0, maps the \<open>k\<close>-th survivor (counting from 0) to \<open>k + 1\<close>, maps
  every index of \<open>[0, max_label]\<close> that is no survivor to 0, and is strictly monotone
  on the survivors.
\<close>

theorem remap_table_sequential:
  assumes "0 \<le> max_label"
    and "sorted_wrt (<) survivors"
    and "\<forall>s \<in> set survivors. 1 \<le> s \<and> s \<le> max_label"
  shows "\<exists>remap. build_label_indexes max_label survivors = Inr remap \<and>
           length remap = nat max_label + 1 \<and>
           remap ! 0 = 0 \<and>
           (\<forall>k < length survivors. remap ! nat (survivors ! k) = int k + 1) \<and>
           (\<forall>j \<le> nat max_label. int j \<notin> set survivors \<longrightarrow> remap ! j = 0) \<and>
           (\<forall>a \<in> set survivors. \<forall>b \<in> set survivors. a < b \<longrightarrow> remap ! nat a < remap ! nat b)"
  using assms by (rule build_label_indexes_survivors)

theorem remap_table_sequential_witness:
  "build_label_indexes 4 [2, 3] = Inr [0, 0, 1, 2, 0] \<and>
   (\<exists>remap. build_label_indexes 4 [2, 3] = Inr remap \<and>
           length remap = nat 4 + 1 \<and>
           remap ! 0 = 0 \<and>
           (\<forall>k < length [2, 3::int]. remap ! nat ([2, 3] ! k) = int k + 1) \<and>
           (\<forall>j \<le> nat 4. int j \<notin> set [2, 3] \<longrightarrow> remap ! j = 0) \<and>
           (\<forall>a \<in> set [2, 3]. \<forall>b \<in> set [2, 3]. a < b \<longrightarrow> remap ! nat a < remap ! nat b))"
proof
  show "build_label_indexes 4 [2, 3] = Inr [0, 0, 1, 2, 0]"
    by code_simp
  show "\<exists>remap. build_label_indexes 4 [2, 3] = Inr remap \<and>
           length remap = nat 4 + 1 \<and>
           remap ! 0 = 0 \<and>
           (\<forall>k < length [2, 3::int]. remap ! nat ([2, 3] ! k) = int k + 1) \<and>
           (\<forall>j \<le> nat 4. int j \<notin> set [2, 3] \<longrightarrow> remap ! j = 0) \<and>
           (\<forall>a \<in> set [2, 3]. \<forall>b \<in> set [2, 3]. a < b \<longrightarrow> remap ! nat a < remap ! nat b)"
    by (rule remap_table_sequential) simp_all
qed

text \<open>
  Claim C10. A selected index above \<open>max_label\<close> makes the construction of the table
  raise IndexError, and with it the whole pass over a primary label matrix whose
  maximum is \<open>max_label\<close>; with every selected index in \<open>[1, max_label]\<close> the
  construction returns a table.
\<close>

theorem selected_index_beyond_max_label:
  assumes "0 \<le> max_label"
  shows "((\<exists>i \<in> set indexes. max_label < i) \<longrightarrow>
            build_label_indexes max_label indexes = Inl IndexError \<and>
            (np_max primary = Inr max_label \<longrightarrow>
               relabel_all indexes primary additional = Inl IndexError)) \<and>
         ((\<forall>i \<in> set indexes. 1 \<le> i \<and> i \<le> max_label) \<longrightarrow>
            (\<exists>remap. build_label_indexes max_label indexes = Inr remap))"
proof -
  let ?zeros = "replicate (nat (max_label + 1)) (0::int)"
  have len: "int (length ?zeros) = max_label + 1" using assms by simp
  have zeros: "np_zeros (max_label + 1) = Inr ?zeros"
    using assms by (simp add: np_zeros_def)
  have fails: "build_label_indexes max_label indexes = Inl IndexError"
    if "\<exists>i \<in> set indexes. max_label < i"
  proof -
    from that obtain i where "i \<in> set indexes" "max_label < i" by blast
    moreover from this have "int (length ?zeros) \<le> i" using len by linarith
    ultimately have "\<exists>i \<in> set indexes. int (length ?zeros) \<le> i \<or> i < - int (length ?zeros)"
      by blast
    then have "np_put ?zeros indexes (arange1 (length indexes)) = Inl IndexError"
      by (intro np_put_out_of_range) simp_all
    then show ?thesis by (simp add: build_label_indexes_def zeros)
  qed
  have succeeds: "\<exists>remap. build_label_indexes max_label indexes = Inr remap"
    if "\<forall>i \<in> set indexes. 1 \<le> i \<and> i \<le> max_label"
  proof -
    from that have "\<forall>i \<in> set indexes. - int (length ?zeros) \<le> i \<and> i < int (length ?zeros)"
      using len assms by auto
    then have "\<exists>t. np_put ?zeros indexes (arange1 (length indexes)) = Inr t"
      by (intro np_put_succeeds) simp_all
    then show ?thesis by (simp add: build_label_indexes_def zeros)
  qed
  show ?thesis using fails succeeds by (auto simp: relabel_all_def)
qed

theorem selected_index_beyond_max_label_witness:
  "build_label_indexes 2 [1, 3] = Inl IndexError \<and>
   relabel_all [1, 3] [[1, 2]] [] = Inl IndexError \<and>
   (\<exists>remap. build_label_indexes 2 [1, 2] = Inr remap)"
  using selected_index_beyond_max_label[of 2 "[1, 3]" "[[1, 2]]" "[]"]
    selected_index_beyond_max_label[of 2 "[1, 2]" "[[1, 2]]" "[]"]
  by (simp add: np_max_def)
subsection \<open>Applying the table to label matrices\<close>

lemma map_err_all_Inr: "\<forall>x \<in> set xs. f x = Inr (g x) \<Longrightarrow> map_err f xs = Inr (map g xs)"
  by (induction xs) auto

lemma map_err_IndexError:
  "\<forall>x \<in> set xs. \<forall>e. f x = Inl e \<longrightarrow> e = IndexError \<Longrightarrow> \<exists>x \<in> set xs. f x = Inl IndexError \<Longrightarrow>
   map_err f xs = Inl IndexError"
proof (induction xs)
  case Nil
  then show ?case by simp
next
  case (Cons x xs)
  show ?case
  proof (cases "f x")
    case (Inl e)
    with Cons.prems(1) have "e = IndexError" by simp
    with Inl show ?thesis by simp
  next
    case (Inr y)
    with Cons.prems(2) have "\<exists>x \<in> set xs. f x = Inl IndexError" by auto
    with Cons have "map_err f xs = Inl IndexError" by simp
    with Inr show ?thesis by simp
  qed
qed

lemma map_err_only_IndexError:
  "\<forall>x \<in> set xs. \<forall>e. f x = Inl e \<longrightarrow> e = IndexError \<Longrightarrow> map_err f xs = Inl e \<Longrightarrow> e = IndexError"
  by (induction xs) (auto split: sum.splits)

lemma np_get_Inl: "np_get a i = Inl e \<longleftrightarrow> e = IndexError \<and> (int (length a) \<le> i \<or> i < - int (length a))"
  by (auto simp: np_get_def np_position_Inl np_position_Inr split: sum.splits)

lemma np_get_Inr:
  "- int (length a) \<le> i \<Longrightarrow> i < int (length a) \<Longrightarrow>
   np_get a i = Inr (a ! nat (if i < 0 then i + int (length a) else i))"
  by (simp add: np_get_def np_position_def)

lemma np_take_all_Inr:
  assumes "\<forall>v \<in> set (concat labels). - int (length a) \<le> v \<and> v < int (length a)"
  shows "np_take a labels =
           Inr (map (map (\<lambda>v. a ! nat (if v < 0 then v + int (length a) else v))) labels)"
  unfolding np_take_def
proof (rule map_err_all_Inr, rule ballI)
  fix row assume "row \<in> set labels"
  with assms have "\<forall>v \<in> set row. - int (length a) \<le> v \<and> v < int (length a)" by auto
  then show "map_err (np_get a) row =
      Inr (map (\<lambda>v. a ! nat (if v < 0 then v + int (length a) else v)) row)"
    by (intro map_err_all_Inr) (simp add: np_get_Inr)
qed

lemma np_take_IndexError:
  assumes "\<exists>v \<in> set (concat labels). int (length a) \<le> v \<or> v < - int (length a)"
  shows "np_take a labels = Inl IndexError"
  unfolding np_take_def
proof (rule map_err_IndexError)
  show "\<forall>row \<in> set labels. \<forall>e. map_err (np_get a) row = Inl e \<longrightarrow> e = IndexError"
    by (auto intro: map_err_only_IndexError[where f = "np_get a"] simp: np_get_Inl)
  from assms obtain row v where rv: "row \<in> set labels" "v \<in> set row"
    "int (length a) \<le> v \<or> v < - int (length a)" by auto
  then have "np_get a v = Inl IndexError" by (simp add: np_get_Inl)
  with rv(2) have "map_err (np_get a) row = Inl IndexError"
    by (intro map_err_IndexError) (auto simp: np_get_Inl)
  with rv(1) show "\<exists>row \<in> set labels. map_err (np_get a) row = Inl IndexError" by blast
qed

lemma concat_zero_above:
  "concat (zero_above m labels) = map (\<lambda>v. if v > m then 0 else v) (concat labels)"
  by (simp add: zero_above_def map_concat)

lemma map_map_cong_concat:
  "\<forall>v \<in> set (concat xss). f v = g v \<Longrightarrow> map (map f) xss = map (map g) xss"
  by (induction xss) auto

lemma relabel_raster_Inr:
  assumes "0 \<le> max_label" "length remap = nat (max_label + 1)"
    and "\<forall>v \<in> set (concat labels). - (max_label + 1) \<le> v"
  shows "relabel_raster max_label remap labels =
           Inr (map (map (\<lambda>v. if v > max_label then remap ! 0
                              else if v < 0 then remap ! nat (v + max_label + 1)
                              else remap ! nat v)) labels)"
proof -
  have len: "int (length remap) = max_label + 1" using assms(1,2) by simp
  have "\<forall>v \<in> set (concat (zero_above max_label labels)).
          - int (length remap) \<le> v \<and> v < int (length remap)"
    using assms(1,3) len by (auto simp: concat_zero_above)
  then have "relabel_raster max_label remap labels =
      Inr (map (map (\<lambda>v. remap ! nat (if v < 0 then v + int (length remap) else v)))
             (zero_above max_label labels))"
    unfolding relabel_raster_def by (rule np_take_all_Inr)
  also have "map (map (\<lambda>v. remap ! nat (if v < 0 then v + int (length remap) else v)))
             (zero_above max_label labels) =
        map (map (\<lambda>v. remap ! nat (if (if v > max_label then 0 else v) < 0
                                     then (if v > max_label then 0 else v) + int (length remap)
                                     else (if v > max_label then 0 else v)))) labels"
    by (simp add: zero_above_def comp_def)
  also have "\<dots> = map (map (\<lambda>v. if v > max_label then remap ! 0
                              else if v < 0 then remap ! nat (v + max_label + 1)
                              else remap ! nat v)) labels"
    by (rule map_map_cong_concat) (use assms(1) len in \<open>auto simp: add.commute add.left_commute\<close>)
  finally show ?thesis .
qed

lemma relabel_raster_IndexError:
  assumes "0 \<le> max_label" "length remap = nat (max_label + 1)"
    and "\<exists>v \<in> set (concat labels). v < - (max_label + 1)"
  shows "relabel_raster max_label remap labels = Inl IndexError"
proof -
  have len: "int (length remap) = max_label + 1" using assms(1,2) by simp
  from assms(3) obtain v where v: "v \<in> set (concat labels)" "v < - (max_label + 1)" by blast
  then have "\<not> v > max_label" using assms(1) by simp
  with v(1) have "v \<in> set (concat (zero_above max_label labels))"
    by (force simp: concat_zero_above)
  with v(2) len have "\<exists>v \<in> set (concat (zero_above max_label labels)).
      int (length remap) \<le> v \<or> v < - int (length remap)" by auto
  then show ?thesis unfolding relabel_raster_def by (rule np_take_IndexError)
qed

lemma np_max_eq: "concat labels \<noteq> [] \<Longrightarrow> np_max labels = Inr (Max (set (concat labels)))"
  by (cases "concat labels") (simp_all add: np_max_def Max.set_eq_fold[symmetric])

lemma np_put_untouched:
  "np_put a idx vs = Inr t \<Longrightarrow> \<forall>i \<in> set idx. 0 \<le> i \<Longrightarrow> j < length a \<Longrightarrow> int j \<notin> set idx \<Longrightarrow>
   t ! j = a ! j"
proof (induction a idx vs arbitrary: t rule: np_put.induct)
  case (3 a i rest v vs)
  from "3.prems"(1) obtain p where p: "np_position (length a) i = Inr p"
    "np_put (a[p := v]) rest vs = Inr t"
    by (auto split: sum.splits)
  from p(1) "3.prems"(2) have "p = nat i" by (auto simp: np_position_Inr)
  with "3.prems" have "p \<noteq> j" by auto
  have "t ! j = (a[p := v]) ! j"
    using "3.IH"[OF p(1) p(2)] "3.prems" by simp
  with \<open>p \<noteq> j\<close> show ?case by simp
qed auto

lemma build_label_indexes_zero:
  assumes "0 \<le> max_label" "\<forall>i \<in> set indexes. 1 \<le> i \<and> i \<le> max_label"
  shows "\<exists>remap. build_label_indexes max_label indexes = Inr remap \<and>
           length remap = nat (max_label + 1) \<and> remap ! 0 = 0 \<and>
           (\<forall>j \<le> nat max_label. int j \<notin> set indexes \<longrightarrow> remap ! j = 0)"
proof -
  let ?zeros = "replicate (nat (max_label + 1)) (0::int)"
  have len: "int (length ?zeros) = max_label + 1" using assms(1) by simp
  have zeros: "np_zeros (max_label + 1) = Inr ?zeros"
    using assms(1) by (simp add: np_zeros_def)
  have "\<forall>i \<in> set indexes. - int (length ?zeros) \<le> i \<and> i < int (length ?zeros)"
    using len assms by auto
  then obtain remap where r: "np_put ?zeros indexes (arange1 (length indexes)) = Inr remap"
    using np_put_succeeds[of indexes "arange1 (length indexes)" ?zeros] by auto
  have nonneg: "\<forall>i \<in> set indexes. 0 \<le> i" using assms(2) by auto
  have other: "\<forall>j \<le> nat max_label. int j \<notin> set indexes \<longrightarrow> remap ! j = 0"
  proof (intro allI impI)
    fix j assume j: "j \<le> nat max_label" "int j \<notin> set indexes"
    then have jl: "j < length ?zeros" using assms(1) by (simp add: nat_add_distrib)
    from np_put_untouched[OF r nonneg jl j(2)] jl show "remap ! j = 0" by simp
  qed
  have "int 0 \<notin> set indexes" using assms(2) by auto
  with other have "remap ! 0 = 0" by simp
  with r other show ?thesis
    by (simp add: build_label_indexes_def zeros np_put_length[OF r])
qed

lemma Max_labels_nonneg:
  assumes "concat labels \<noteq> []" "\<forall>v \<in> set (concat labels). (0::int) \<le> v"
  shows "0 \<le> Max (set (concat labels))"
proof -
  have "Max (set (concat labels)) \<in> set (concat labels)"
    using assms(1) by (intro Max_in) simp_all
  with assms(2) show ?thesis by blast
qed

lemma relabel_all_steps:
  assumes "np_max primary = Inr m" "build_label_indexes m indexes = Inr remap"
    and "map_err (relabel_raster m remap) (primary # additional) = Inr targets"
  shows "relabel_all indexes primary additional = Inr (remap, targets)"
  using assms by (simp add: relabel_all_def)

lemma relabel_all_Inr:
  assumes "concat primary \<noteq> []"
    and "\<forall>labels \<in> set (primary # additional). \<forall>v \<in> set (concat labels). 0 \<le> v"
    and "\<forall>i \<in> set indexes. 1 \<le> i \<and> i \<le> Max (set (concat primary))"
  shows "\<exists>remap. build_label_indexes (Max (set (concat primary))) indexes = Inr remap \<and>
           length remap = nat (Max (set (concat primary)) + 1) \<and> remap ! 0 = 0 \<and>
           (\<forall>j \<le> nat (Max (set (concat primary))). int j \<notin> set indexes \<longrightarrow> remap ! j = 0) \<and>
           relabel_all indexes primary additional =
             Inr (remap, map (map (map (\<lambda>v. if v > Max (set (concat primary)) then 0
                                          else remap ! nat v))) (primary # additional))"
proof -
  let ?m = "Max (set (concat primary))"
  have m0: "0 \<le> ?m" using assms(1,2) by (intro Max_labels_nonneg) simp_all
  from build_label_indexes_zero[OF m0 assms(3)] obtain remap where
    r: "build_label_indexes ?m indexes = Inr remap" "length remap = nat (?m + 1)" "remap ! 0 = 0"
    "\<forall>j \<le> nat ?m. int j \<notin> set indexes \<longrightarrow> remap ! j = 0"
    by blast
  have each: "\<forall>labels \<in> set (primary # additional). relabel_raster ?m remap labels =
      Inr (map (map (\<lambda>v. if v > ?m then 0 else remap ! nat v)) labels)"
  proof
    fix labels assume l: "labels \<in> set (primary # additional)"
    with assms(2) have nn: "\<forall>v \<in> set (concat labels). 0 \<le> v" by blast
    then have "\<forall>v \<in> set (concat labels). - (?m + 1) \<le> v" using m0 by force
    from relabel_raster_Inr[OF m0 r(2) this]
    have "relabel_raster ?m remap labels =
           Inr (map (map (\<lambda>v. if v > ?m then remap ! 0
                              else if v < 0 then remap ! nat (v + ?m + 1)
                              else remap ! nat v)) labels)" .
    also have "map (map (\<lambda>v. if v > ?m then remap ! 0
                              else if v < 0 then remap ! nat (v + ?m + 1)
                              else remap ! nat v)) labels =
               map (map (\<lambda>v. if v > ?m then 0 else remap ! nat v)) labels"
    proof (rule map_map_cong_concat, rule ballI)
      fix v assume "v \<in> set (concat labels)"
      with nn have "0 \<le> v" by blast
      then show "(if v > ?m then remap ! 0
                  else if v < 0 then remap ! nat (v + ?m + 1) else remap ! nat v) =
                 (if v > ?m then 0 else remap ! nat v)"
        using r(3) by simp
    qed
    finally show "relabel_raster ?m remap labels =
      Inr (map (map (\<lambda>v. if v > ?m then 0 else remap ! nat v)) labels)" .
  qed
  have me: "map_err (relabel_raster ?m remap) (primary # additional) =
      Inr (map (map (map (\<lambda>v. if v > ?m then 0 else remap ! nat v))) (primary # additional))"
    using each by (rule map_err_all_Inr)
  have "relabel_all indexes primary additional =
             Inr (remap, map (map (map (\<lambda>v. if v > ?m then 0 else remap ! nat v)))
                           (primary # additional))"
    by (rule relabel_all_steps[OF np_max_eq[OF assms(1)] r(1) me])
  with r show ?thesis by blast
qed

lemma np_max_Inr_iff:
  "np_max labels = Inr m \<longleftrightarrow> concat labels \<noteq> [] \<and> m = Max (set (concat labels))"
proof (cases "concat labels = []")
  case True
  then show ?thesis by (simp add: np_max_def del: concat_eq_Nil_conv)
next
  case False
  then show ?thesis using np_max_eq[OF False] by auto
qed

text \<open>
  Claim C3. Let \<open>max_label\<close> be the maximum of the primary label matrix, all label
  matrices non-negative and the selected indexes in \<open>[1, max_label]\<close>. Then the pass
  returns one table and one new label matrix per input matrix, primary first; each
  new matrix is its input with every pixel \<open>v\<close> replaced by 0 when \<open>v > max_label\<close> and
  by the table's entry at \<open>v\<close> otherwise, the table being the same for all of them.
  So each new matrix has the row lengths of its input, and two pixels with the same
  old label, in the same matrix or in two of them, get the same new label.
\<close>

theorem relabel_all_same_table:
  assumes "np_max primary = Inr max_label"
    and "\<forall>labels \<in> set (primary # additional). \<forall>v \<in> set (concat labels). 0 \<le> v"
    and "\<forall>i \<in> set indexes. 1 \<le> i \<and> i \<le> max_label"
  shows "\<exists>remap targets.
           build_label_indexes max_label indexes = Inr remap \<and>
           relabel_all indexes primary additional = Inr (remap, targets) \<and>
           targets = map (map (map (\<lambda>v. if v > max_label then 0 else remap ! nat v)))
                       (primary # additional) \<and>
           length targets = length (primary # additional) \<and>
           (\<forall>k < length targets.
              map length (targets ! k) = map length ((primary # additional) ! k)) \<and>
           (\<forall>k r c k' r' c'.
              k < length targets \<and> r < length (targets ! k) \<and> c < length (targets ! k ! r) \<and>
              k' < length targets \<and> r' < length (targets ! k') \<and> c' < length (targets ! k' ! r') \<and>
              (primary # additional) ! k ! r ! c = (primary # additional) ! k' ! r' ! c'
              \<longrightarrow> targets ! k ! r ! c = targets ! k' ! r' ! c')"
proof -
  from assms(1) have ne: "concat primary \<noteq> []" and m: "max_label = Max (set (concat primary))"
    by (simp_all add: np_max_Inr_iff)
  let ?f = "\<lambda>v. if v > max_label then 0 else remap ! nat v"
  from relabel_all_Inr[OF ne assms(2), of indexes] assms(3) m
  obtain remap where r: "build_label_indexes max_label indexes = Inr remap"
    "relabel_all indexes primary additional =
       Inr (remap, map (map (map (\<lambda>v. if v > max_label then 0 else remap ! nat v)))
                     (primary # additional))"
    by auto
  define targets where
    "targets = map (map (map (\<lambda>v. if v > max_label then 0 else remap ! nat v))) (primary # additional)"
  have len: "length targets = length (primary # additional)"
    by (simp add: targets_def)
  have shape: "\<forall>k < length targets. map length (targets ! k) = map length ((primary # additional) ! k)"
    unfolding targets_def by (simp add: comp_def del: list.map)
  have pix: "targets ! k ! r ! c =
      (let v = (primary # additional) ! k ! r ! c in if v > max_label then 0 else remap ! nat v)"
    if "k < length targets" "r < length (targets ! k)" "c < length (targets ! k ! r)" for k r c
    using that unfolding targets_def by (simp del: list.map)
  have align: "\<forall>k r c k' r' c'.
              k < length targets \<and> r < length (targets ! k) \<and> c < length (targets ! k ! r) \<and>
              k' < length targets \<and> r' < length (targets ! k') \<and> c' < length (targets ! k' ! r') \<and>
              (primary # additional) ! k ! r ! c = (primary # additional) ! k' ! r' ! c'
              \<longrightarrow> targets ! k ! r ! c = targets ! k' ! r' ! c'"
    by (simp add: pix)
  have r2: "relabel_all indexes primary additional = Inr (remap, targets)"
    using r(2) by (simp only: targets_def)
  show ?thesis
    by (intro exI[of _ remap] exI[of _ targets] conjI) (fact r(1) r2 targets_def len shape align)+
qed

theorem relabel_all_same_table_witness:
  "relabel_all [1, 3] [[1, 2], [3, 0]] [[[3, 3], [7, 1]]] =
     Inr ([0, 1, 0, 2], [[[1, 0], [2, 0]], [[2, 2], [0, 1]]])"
proof -
  have "np_max [[1, 2], [3, 0]] = Inr 3"
    by (simp add: np_max_def)
  from relabel_all_same_table[OF this, of "[[[3, 3], [7, 1]]]" "[1, 3]"]
  obtain remap targets where
    r: "build_label_indexes 3 [1, 3] = Inr remap"
       "relabel_all [1, 3] [[1, 2], [3, 0]] [[[3, 3], [7, 1]]] = Inr (remap, targets)"
       "targets = map (map (map (\<lambda>v. if v > 3 then 0 else remap ! nat v)))
                       ([[1, 2], [3, 0]] # [[[3, 3], [7, 1]]])"
    by auto
  have "build_label_indexes 3 [1, 3] = Inr [0, 1, 0, 2]"
    by code_simp
  with r(1) have "remap = [0, 1, 0, 2]" by simp
  with r(2,3) show ?thesis by simp
qed

text \<open>
  Claim C9, as amended. A negative pixel is not rejected for being negative. With a
  table of \<open>max_label + 1\<close> entries, a pixel \<open>v\<close> with \<open>- (max_label + 1) \<le> v < 0\<close> is
  read from the end of the table, at \<open>v + max_label + 1\<close>, and the matrix is relabeled
  without error; only a pixel below \<open>- (max_label + 1)\<close> raises IndexError.
\<close>

theorem negative_pixel_lookup:
  assumes "0 \<le> max_label" and "length remap = nat (max_label + 1)"
  shows "((\<exists>v \<in> set (concat labels). v < - (max_label + 1)) \<longrightarrow>
            relabel_raster max_label remap labels = Inl IndexError) \<and>
         ((\<forall>v \<in> set (concat labels). - (max_label + 1) \<le> v) \<longrightarrow>
            relabel_raster max_label remap labels =
              Inr (map (map (\<lambda>v. if v > max_label then remap ! 0
                                 else if v < 0 then remap ! nat (v + max_label + 1)
                                 else remap ! nat v)) labels))"
  using relabel_raster_IndexError[OF assms] relabel_raster_Inr[OF assms] by blast

theorem negative_pixel_lookup_witness:
  "relabel_raster 2 [0, 1, 2] [[- 4, 1]] = Inl IndexError \<and>
   relabel_raster 2 [0, 1, 2] [[- 1, 5], [- 3, 1]] = Inr [[2, 0], [0, 1]]"
  using negative_pixel_lookup[of 2 "[0, 1, 2]" "[[- 4, 1]]"]
    negative_pixel_lookup[of 2 "[0, 1, 2]" "[[- 1, 5], [- 3, 1]]"]
  by simp

text \<open>
  The claim as stated fails: the label matrix \<open>[[-1, 1]]\<close> with survivor 1 is relabeled
  without error, and the pixel \<open>-1\<close> comes out as object 1.
\<close>

theorem negative_pixel_not_rejected_counterexample:
  "relabel_all [1] [[- 1, 1]] [] = Inr ([0, 1], [[[1, 1]]])"
  by code_simp

lemma build_label_indexes_table:
  assumes "0 \<le> max_label"
    and "sorted_wrt (<) survivors"
    and "\<forall>s \<in> set survivors. 1 \<le> s \<and> s \<le> max_label"
    and "build_label_indexes max_label survivors = Inr remap"
  shows "\<forall>k < length survivors. remap ! nat (survivors ! k) = int k + 1"
  using build_label_indexes_survivors[OF assms(1-3)] assms(4) by auto

lemma Max_labels_top:
  fixes A :: "int set"
  assumes "finite A" "A \<subseteq> {0..n}" "n \<in> A"
  shows "Max A = n"
proof (rule Max_eqI)
  show "finite A" by fact
  show "n \<in> A" by fact
  fix y assume "y \<in> A"
  with assms(2) have "y \<in> {0..n}" by blast
  then show "y \<le> n" by simp
qed

text \<open>
  The new labels of a set \<open>L\<close> of old labels under a map \<open>f\<close> that numbers the
  survivors from 1 and sends every other label to 0.
\<close>

lemma new_labels_of_survivors:
  fixes f :: "int \<Rightarrow> int" and L :: "int set"
  assumes dist: "distinct survivors"
    and f_surv: "\<forall>k < length survivors. f (survivors ! k) = int k + 1"
    and f_other: "\<forall>v \<in> L. v \<notin> set survivors \<longrightarrow> f v = 0"
    and fin: "finite L" and ne: "L \<noteq> {}"
  shows "Max (f ` L) = int (length survivors) \<longleftrightarrow> survivors = [] \<or> last survivors \<in> L"
    and "card (f ` L - {0}) = card (set survivors \<inter> L)"
proof -
  let ?K = "length survivors"
  have sub: "f ` L \<subseteq> {0..int ?K}"
  proof
    fix y assume "y \<in> f ` L"
    then obtain v where v: "v \<in> L" "y = f v" by blast
    show "y \<in> {0..int ?K}"
    proof (cases "v \<in> set survivors")
      case True
      then obtain k where "k < ?K" "survivors ! k = v" by (auto simp: in_set_conv_nth)
      with f_surv v(2) show ?thesis by auto
    next
      case False
      with f_other v show ?thesis by simp
    qed
  qed
  have pos: "1 \<le> f s" if "s \<in> set survivors" for s
  proof -
    from that obtain k where "k < ?K" "survivors ! k = s" by (auto simp: in_set_conv_nth)
    with f_surv show ?thesis by auto
  qed
  have inj: "inj_on f (set survivors)"
  proof (rule inj_onI)
    fix a b assume "a \<in> set survivors" "b \<in> set survivors" "f a = f b"
    then obtain j k where jk: "j < ?K" "survivors ! j = a" "k < ?K" "survivors ! k = b"
      by (auto simp: in_set_conv_nth)
    with f_surv \<open>f a = f b\<close> have "int j + 1 = int k + 1" by auto
    then have "j = k" by simp
    with jk show "a = b" by simp
  qed
  have nz: "f ` L - {0} = f ` (set survivors \<inter> L)"
  proof (rule set_eqI)
    fix y
    show "y \<in> f ` L - {0} \<longleftrightarrow> y \<in> f ` (set survivors \<inter> L)"
    proof
      assume "y \<in> f ` L - {0}"
      then obtain v where v: "v \<in> L" "y = f v" "y \<noteq> 0" by blast
      with f_other have "v \<in> set survivors" by auto
      with v show "y \<in> f ` (set survivors \<inter> L)" by blast
    next
      assume "y \<in> f ` (set survivors \<inter> L)"
      then obtain v where v: "v \<in> set survivors" "v \<in> L" "y = f v" by blast
      with pos[OF v(1)] have "y \<noteq> 0" by simp
      with v show "y \<in> f ` L - {0}" by blast
    qed
  qed
  have "inj_on f (set survivors \<inter> L)"
    using inj by (rule inj_on_subset) simp
  then show "card (f ` L - {0}) = card (set survivors \<inter> L)"
    unfolding nz by (rule card_image)
  have finL: "finite (f ` L)" using fin by simp
  show "Max (f ` L) = int ?K \<longleftrightarrow> survivors = [] \<or> last survivors \<in> L"
  proof
    assume mx: "Max (f ` L) = int ?K"
    have "Max (f ` L) \<in> f ` L" using finL ne by (intro Max_in) simp_all
    with mx obtain v where v: "v \<in> L" "f v = int ?K" by auto
    show "survivors = [] \<or> last survivors \<in> L"
    proof (cases "survivors = []")
      case True
      then show ?thesis by simp
    next
      case False
      then have "f v \<noteq> 0" using v(2) by simp
      with f_other v(1) have "v \<in> set survivors" by auto
      then obtain k where k: "k < ?K" "survivors ! k = v" by (auto simp: in_set_conv_nth)
      with f_surv v(2) have "int k + 1 = int ?K" by auto
      then have "k = ?K - 1" by simp
      with k(2) False have "v = last survivors" by (simp add: last_conv_nth)
      with v(1) show ?thesis by simp
    qed
  next
    assume a: "survivors = [] \<or> last survivors \<in> L"
    have "int ?K \<in> f ` L"
    proof (cases "survivors = []")
      case True
      from ne obtain v where v: "v \<in> L" by blast
      with True f_other have "f v = 0" by simp
      with v True show ?thesis by force
    next
      case False
      with a have l: "last survivors \<in> L" by simp
      from False have k: "?K - 1 < ?K" by simp
      have "f (last survivors) = int (?K - 1) + 1"
        using f_surv k False by (simp add: last_conv_nth)
      also have "\<dots> = int ?K" using k by simp
      finally show ?thesis using l by force
    qed
    with finL sub show "Max (f ` L) = int ?K" by (rule Max_labels_top)
  qed
qed

text \<open>
  Claim C4, as amended. Let the label matrices be non-negative and the survivors lie
  in \<open>[1, max_label]\<close>, where \<open>max_label\<close> is the maximum of the primary matrix. Then
  the pass succeeds and every pixel whose old label is no survivor is 0 in the new
  primary matrix. For strictly increasing survivors, \<open>K\<close> in number, the maximum of
  the new primary matrix is \<open>K\<close> exactly when there is no survivor or the greatest
  survivor labels a pixel of the primary matrix; the non-zero labels of the new
  primary matrix are as many as the survivors that label a pixel, so they are \<open>K\<close>
  in number exactly when every survivor labels a pixel.
\<close>

theorem relabel_primary_counts:
  assumes "np_max primary = Inr max_label"
    and "\<forall>labels \<in> set (primary # additional). \<forall>v \<in> set (concat labels). 0 \<le> v"
    and "\<forall>s \<in> set survivors. 1 \<le> s \<and> s \<le> max_label"
  shows "\<exists>remap target others.
           relabel_all survivors primary additional = Inr (remap, target # others) \<and>
           (\<forall>r c. r < length primary \<and> c < length (primary ! r) \<and>
                  primary ! r ! c \<notin> set survivors \<longrightarrow> target ! r ! c = 0) \<and>
           (sorted_wrt (<) survivors \<longrightarrow>
              (np_max target = Inr (int (length survivors)) \<longleftrightarrow>
                 survivors = [] \<or> last survivors \<in> set (concat primary)) \<and>
              card (set (concat target) - {0}) = card (set survivors \<inter> set (concat primary)) \<and>
              (card (set (concat target) - {0}) = length survivors \<longleftrightarrow>
                 (\<forall>s \<in> set survivors. s \<in> set (concat primary))))"
proof -
  let ?L = "set (concat primary)"
  let ?K = "length survivors"
  from assms(1) have ne: "concat primary \<noteq> []" and m: "max_label = Max ?L"
    by (simp_all add: np_max_Inr_iff)
  have le_m: "v \<le> max_label" if "v \<in> ?L" for v
    using that unfolding m by (intro Max_ge) simp_all
  have m0: "0 \<le> max_label"
    unfolding m using ne assms(2) by (intro Max_labels_nonneg) simp_all
  from relabel_all_Inr[OF ne assms(2), of survivors] assms(3) m
  obtain remap where r: "build_label_indexes max_label survivors = Inr remap"
    "\<forall>j \<le> nat max_label. int j \<notin> set survivors \<longrightarrow> remap ! j = 0"
    "relabel_all survivors primary additional =
       Inr (remap, map (map (map (\<lambda>v. if v > max_label then 0 else remap ! nat v)))
                     (primary # additional))"
    by auto
  define f where "f = (\<lambda>v. if v > max_label then 0 else remap ! nat v)"
  define target where "target = map (map f) primary"
  have f_other: "f v = 0" if "v \<in> ?L" "v \<notin> set survivors" for v
  proof -
    have "primary \<in> set (primary # additional)" by simp
    with assms(2) have "\<forall>v \<in> ?L. 0 \<le> v" by blast
    with that(1) have "0 \<le> v" by blast
    moreover have "v \<le> max_label" using le_m that(1) .
    ultimately have "nat v \<le> nat max_label" "int (nat v) = v" by simp_all
    with r(2) that(2) have "remap ! nat v = 0" by simp
    then show ?thesis by (simp add: f_def)
  qed
  have ct: "concat target = map f (concat primary)"
    by (simp add: target_def map_concat)
  have img: "set (concat target) = f ` ?L"
    by (simp only: ct set_map)
  have removed: "\<forall>r c. r < length primary \<and> c < length (primary ! r) \<and>
                  primary ! r ! c \<notin> set survivors \<longrightarrow> target ! r ! c = 0"
  proof (intro allI impI)
    fix r c assume a: "r < length primary \<and> c < length (primary ! r) \<and>
                  primary ! r ! c \<notin> set survivors"
    then have "primary ! r \<in> set primary" "primary ! r ! c \<in> set (primary ! r)"
      by simp_all
    then have "primary ! r ! c \<in> ?L" by auto
    with a have "f (primary ! r ! c) = 0" by (intro f_other) simp_all
    then show "target ! r ! c = 0" using a by (simp add: target_def)
  qed
  have counts: "(np_max target = Inr (int ?K) \<longleftrightarrow> survivors = [] \<or> last survivors \<in> ?L) \<and>
       card (set (concat target) - {0}) = card (set survivors \<inter> ?L) \<and>
       (card (set (concat target) - {0}) = ?K \<longleftrightarrow> (\<forall>s \<in> set survivors. s \<in> ?L))"
    if sorted: "sorted_wrt (<) survivors"
  proof -
    have dist: "distinct survivors" using sorted by (simp add: strict_sorted_iff)
    have nth: "\<forall>k < ?K. remap ! nat (survivors ! k) = int k + 1"
      by (rule build_label_indexes_table[OF m0 sorted assms(3) r(1)])
    have f_surv: "\<forall>k < ?K. f (survivors ! k) = int k + 1"
    proof (intro allI impI)
      fix k assume k: "k < ?K"
      then have "survivors ! k \<le> max_label" using assms(3) by simp
      then show "f (survivors ! k) = int k + 1" using nth k by (simp add: f_def)
    qed
    have f_other': "\<forall>v \<in> ?L. v \<notin> set survivors \<longrightarrow> f v = 0"
      using f_other by blast
    have neL: "?L \<noteq> {}" using ne by (simp only: set_empty) simp
    note facts = new_labels_of_survivors[OF dist f_surv f_other' _ neL]
    have mxv: "Max (f ` ?L) = int ?K \<longleftrightarrow> survivors = [] \<or> last survivors \<in> ?L"
      by (rule facts(1)) simp
    have cnt: "card (f ` ?L - {0}) = card (set survivors \<inter> ?L)"
      by (rule facts(2)) simp
    have "concat target \<noteq> []" using ne by (simp only: ct) simp
    then have "np_max target = Inr (Max (set (concat target)))" by (rule np_max_eq)
    then have mx: "np_max target = Inr (int ?K) \<longleftrightarrow> survivors = [] \<or> last survivors \<in> ?L"
      using mxv by (simp only: img) simp
    have all: "card (set survivors \<inter> ?L) = ?K \<longleftrightarrow> (\<forall>s \<in> set survivors. s \<in> ?L)"
    proof
      assume c: "card (set survivors \<inter> ?L) = ?K"
      have "set survivors \<inter> ?L = set survivors"
        by (rule card_subset_eq) (use c dist in \<open>simp_all add: distinct_card\<close>)
      then show "\<forall>s \<in> set survivors. s \<in> ?L" by blast
    next
      assume "\<forall>s \<in> set survivors. s \<in> ?L"
      then have "set survivors \<inter> ?L = set survivors" by blast
      then show "card (set survivors \<inter> ?L) = ?K" using dist by (simp only: distinct_card)
    qed
    show ?thesis
      using mx cnt all by (simp only: img)
  qed
  have r3: "relabel_all survivors primary additional =
      Inr (remap, target # map (map (map f)) additional)"
    using r(3) by (simp only: target_def f_def list.map)
  show ?thesis
    by (intro exI[of _ remap] exI[of _ target] exI[of _ "map (map (map f)) additional"] conjI impI)
       (use r3 removed counts in \<open>blast+\<close>)
qed

theorem relabel_primary_counts_witness:
  "\<exists>remap target others.
     relabel_all [2, 3] [[3, 0], [2, 1]] [[[3, 5]]] = Inr (remap, target # others) \<and>
     np_max target = Inr 2 \<and> card (set (concat target) - {0}) = 2 \<and>
     target ! 1 ! 1 = 0"
proof -
  have "np_max [[3, 0], [2, 1]] = Inr 3"
    by (simp add: np_max_def)
  from relabel_primary_counts[OF this, of "[[[3, 5]]]" "[2, 3]"]
  obtain remap target others where t:
    "relabel_all [2, 3] [[3, 0], [2, 1]] [[[3, 5]]] = Inr (remap, target # others)"
    "\<forall>r c. r < length [[3, 0], [2, 1 :: int]] \<and> c < length ([[3, 0], [2, 1 :: int]] ! r) \<and>
           [[3, 0], [2, 1]] ! r ! c \<notin> set [2, 3 :: int] \<longrightarrow> target ! r ! c = 0"
    "np_max target = Inr (int (length [2, 3 :: int])) \<longleftrightarrow>
       [2, 3 :: int] = [] \<or> last [2, 3] \<in> set (concat [[3, 0], [2, 1]])"
    "card (set (concat target) - {0}) = length [2, 3 :: int] \<longleftrightarrow>
       (\<forall>s \<in> set [2, 3 :: int]. s \<in> set (concat [[3, 0], [2, 1]]))"
    by auto
  have "target ! 1 ! 1 = 0" using t(2)[rule_format, of 1 1] by simp
  moreover have "np_max target = Inr 2" using t(3) by simp
  moreover have "card (set (concat target) - {0}) = 2" using t(4) by simp
  ultimately show ?thesis using t(1) by blast
qed

text \<open>
  The claim as stated fails when a survivor labels no pixel: the primary matrix
  \<open>[[1, 3]]\<close> with survivors \<open>[1, 2]\<close> is relabeled to \<open>[[1, 0]]\<close>, with maximum 1 and one
  non-zero label, while \<open>K = 2\<close>.
\<close>

theorem relabel_missing_survivor_counterexample:
  "\<exists>remap target.
     relabel_all [1, 2] [[1, 3]] [] = Inr (remap, [target]) \<and>
     np_max target \<noteq> Inr (int (length [1, 2 :: int])) \<and>
     card (set (concat target) - {0}) \<noteq> length [1, 2 :: int]"
proof -
  have "relabel_all [1, 2] [[1, 3]] [] = Inr ([0, 1, 2, 0], [[[1, 0]]])"
    by code_simp
  moreover have "np_max [[1, 0]] \<noteq> Inr (int (length [1, 2 :: int]))"
    by (simp add: np_max_def)
  moreover have "card (set (concat [[1, 0 :: int]]) - {0}) \<noteq> length [1, 2 :: int]"
    by simp
  ultimately show ?thesis by blast
qed

subsection \<open>\<^verbatim>\<open>keep_by_rules\<close>: NaN scores are rejected\<close>

lemma argwhere1_set: "set (argwhere1 hits) = {int j + 1 | j. j < length hits \<and> hits ! j}"
  by (auto simp: argwhere1_def)

lemma argwhere1_sorted: "sorted_wrt (<) (argwhere1 hits)"
proof -
  have "sorted_wrt (<) (filter (\<lambda>j. hits ! j) [0..<length hits])"
    by (rule sorted_wrt_filter) simp
  then have "sorted_wrt (\<lambda>x y. int x + 1 < int y + 1) (filter (\<lambda>j. hits ! j) [0..<length hits])"
    by (rule sorted_wrt_mono_rel[rotated]) simp
  then show ?thesis
    unfolding argwhere1_def sorted_wrt_map .
qed

lemma argwhere1_mem: "int j + 1 \<in> set (argwhere1 hits) \<longleftrightarrow> j < length hits \<and> hits ! j"
  by (auto simp: argwhere1_set)

lemma argwhere1_bounds: "i \<in> set (argwhere1 hits) \<Longrightarrow> 1 \<le> i \<and> i \<le> int (length hits)"
  by (auto simp: argwhere1_set)

lemma fl_gt_NegInf [simp]: "\<not> fl_gt NegInf x"
  by (cases x) (simp_all add: fl_gt_def)

lemma fl_gt_PosInf [simp]: "\<not> fl_gt x PosInf"
  by (cases x) (simp_all add: fl_gt_def)

text \<open>
  Claim C6. In the coerced score matrix every NaN of the positive column is \<open>-\<infinity>\<close> and
  every NaN of the negative column is \<open>+\<infinity>\<close>, all other entries unchanged; index \<open>i\<close> is
  returned exactly when \<open>1 \<le> i \<le> N\<close> and the coerced positive score of row \<open>i\<close> is
  greater than its coerced negative score; a row with a NaN in either column is never
  returned; the result is strictly increasing.
\<close>

theorem keep_by_rules_survivors:
  "coerce_positive scores =
     map (\<lambda>row. (if fst row = NaN then NegInf else fst row, snd row)) scores \<and>
   coerce_negative (coerce_positive scores) =
     map (\<lambda>row. (if fst row = NaN then NegInf else fst row,
                  if snd row = NaN then PosInf else snd row)) scores \<and>
   (\<forall>i. i \<in> set (keep_by_rules scores) \<longleftrightarrow>
        1 \<le> i \<and> i \<le> int (length scores) \<and>
        fl_gt (fst (coerce_negative (coerce_positive scores) ! nat (i - 1)))
              (snd (coerce_negative (coerce_positive scores) ! nat (i - 1)))) \<and>
   (\<forall>j < length scores. fst (scores ! j) = NaN \<or> snd (scores ! j) = NaN \<longrightarrow>
        int j + 1 \<notin> set (keep_by_rules scores)) \<and>
   sorted_wrt (<) (keep_by_rules scores)"
proof (intro conjI)
  show "coerce_positive scores =
     map (\<lambda>row. (if fst row = NaN then NegInf else fst row, snd row)) scores"
    by (simp add: coerce_positive_def isnan_def)
  show cn: "coerce_negative (coerce_positive scores) =
     map (\<lambda>row. (if fst row = NaN then NegInf else fst row,
                  if snd row = NaN then PosInf else snd row)) scores"
    by (simp add: coerce_positive_def coerce_negative_def isnan_def comp_def)
  let ?c = "coerce_negative (coerce_positive scores)"
  have len: "length ?c = length scores" by (simp add: cn)
  have mem: "int j + 1 \<in> set (keep_by_rules scores) \<longleftrightarrow>
      j < length scores \<and> fl_gt (fst (?c ! j)) (snd (?c ! j))" for j
    using len by (auto simp: keep_by_rules_def Let_def argwhere1_mem)
  show "\<forall>i. i \<in> set (keep_by_rules scores) \<longleftrightarrow>
        1 \<le> i \<and> i \<le> int (length scores) \<and> fl_gt (fst (?c ! nat (i - 1))) (snd (?c ! nat (i - 1)))"
  proof
    fix i
    show "i \<in> set (keep_by_rules scores) \<longleftrightarrow>
        1 \<le> i \<and> i \<le> int (length scores) \<and> fl_gt (fst (?c ! nat (i - 1))) (snd (?c ! nat (i - 1)))"
    proof (cases "1 \<le> i")
      case True
      then have "i = int (nat (i - 1)) + 1" by simp
      then have "i \<in> set (keep_by_rules scores) \<longleftrightarrow>
         nat (i - 1) < length scores \<and> fl_gt (fst (?c ! nat (i - 1))) (snd (?c ! nat (i - 1)))"
        using mem[of "nat (i - 1)"] by simp
      with True show ?thesis by auto
    next
      case False
      have "i \<notin> set (keep_by_rules scores)"
        using False argwhere1_bounds[of i] by (auto simp: keep_by_rules_def Let_def)
      with False show ?thesis by simp
    qed
  qed
  show "\<forall>j < length scores. fst (scores ! j) = NaN \<or> snd (scores ! j) = NaN \<longrightarrow>
        int j + 1 \<notin> set (keep_by_rules scores)"
    by (auto simp: mem cn)
  show "sorted_wrt (<) (keep_by_rules scores)"
    by (simp add: keep_by_rules_def Let_def argwhere1_sorted)
qed

theorem keep_by_rules_survivors_witness:
  "2 \<notin> set (keep_by_rules [(Finite 2, Finite 1), (NaN, Finite 0), (Finite 3, NaN),
                               (Finite 1, Finite 1), (PosInf, Finite 7)]) \<and>
   3 \<notin> set (keep_by_rules [(Finite 2, Finite 1), (NaN, Finite 0), (Finite 3, NaN),
                               (Finite 1, Finite 1), (PosInf, Finite 7)]) \<and>
   keep_by_rules [(Finite 2, Finite 1), (NaN, Finite 0), (Finite 3, NaN),
                  (Finite 1, Finite 1), (PosInf, Finite 7)] = [1, 5]"
proof -
  let ?s = "[(Finite 2, Finite 1), (NaN, Finite 0), (Finite 3, NaN),
             (Finite 1, Finite 1), (PosInf, Finite 7)]"
  have nan: "\<forall>j < length ?s. fst (?s ! j) = NaN \<or> snd (?s ! j) = NaN \<longrightarrow>
        int j + 1 \<notin> set (keep_by_rules ?s)"
    using keep_by_rules_survivors[of ?s] by blast
  have second: "2 \<notin> set (keep_by_rules ?s)"
    using nan[rule_format, of 1] by simp
  have third: "3 \<notin> set (keep_by_rules ?s)"
    using nan[rule_format, of 2] by simp
  have "keep_by_rules ?s = [1, 5]"
    by code_simp
  with second third show ?thesis by (intro conjI)
qed

subsection \<open>\<^verbatim>\<open>keep_one\<close>: the first extremum\<close>

lemma fl_le_refl: "x \<noteq> NaN \<Longrightarrow> fl_le x x"
  by (cases x) simp_all

lemma fl_le_not_NaN: "fl_le x y \<Longrightarrow> x \<noteq> NaN \<and> y \<noteq> NaN"
  by (cases x; cases y) simp_all

lemma not_fl_le: "x \<noteq> NaN \<Longrightarrow> y \<noteq> NaN \<Longrightarrow> \<not> fl_le x y \<Longrightarrow> fl_lt y x"
  by (cases x; cases y) simp_all

lemma fl_le_lt_trans: "fl_le a b \<Longrightarrow> fl_lt b c \<Longrightarrow> fl_lt a c"
  by (cases a; cases b; cases c) simp_all

lemma fl_lt_le_trans: "fl_lt a b \<Longrightarrow> fl_le b c \<Longrightarrow> fl_lt a c"
  by (cases a; cases b; cases c) simp_all

lemma fl_lt_imp_le: "fl_lt a b \<Longrightarrow> fl_le a b"
  by (cases a; cases b) simp_all

lemma argmax_loop_first_maximum:
  assumes "mi < length pre" "NaN \<notin> set pre" "pre ! mi = mp"
    and "\<forall>j < length pre. fl_le (pre ! j) mp"
    and "\<forall>j < mi. fl_lt (pre ! j) mp"
  shows "argmax_loop mp mi (length pre) xs < length (pre @ xs) \<and>
         (NaN \<in> set xs \<longrightarrow>
            (pre @ xs) ! argmax_loop mp mi (length pre) xs = NaN \<and>
            (\<forall>j < argmax_loop mp mi (length pre) xs. (pre @ xs) ! j \<noteq> NaN)) \<and>
         (NaN \<notin> set xs \<longrightarrow>
            (\<forall>j < length (pre @ xs).
               fl_le ((pre @ xs) ! j) ((pre @ xs) ! argmax_loop mp mi (length pre) xs)) \<and>
            (\<forall>j < argmax_loop mp mi (length pre) xs.
               fl_lt ((pre @ xs) ! j) ((pre @ xs) ! argmax_loop mp mi (length pre) xs)))"
  using assms
proof (induction xs arbitrary: pre mp mi)
  case Nil
  then show ?case by simp
next
  case (Cons x xs)
  have mp: "mp \<noteq> NaN" using Cons.prems(1,2,3) by (metis nth_mem)
  have app: "pre @ x # xs = (pre @ [x]) @ xs" by simp
  show ?case
  proof (cases "fl_le x mp")
    case True
    then have x: "x \<noteq> NaN" by (simp add: fl_le_not_NaN)
    have le: "\<forall>j < length (pre @ [x]). fl_le ((pre @ [x]) ! j) mp"
      using Cons.prems(4) True by (auto simp: nth_append)
    have lt: "\<forall>j < mi. fl_lt ((pre @ [x]) ! j) mp"
      using Cons.prems(1,5) by (auto simp: nth_append)
    have ih: "argmax_loop mp mi (length (pre @ [x])) xs < length ((pre @ [x]) @ xs) \<and>
         (NaN \<in> set xs \<longrightarrow>
            ((pre @ [x]) @ xs) ! argmax_loop mp mi (length (pre @ [x])) xs = NaN \<and>
            (\<forall>j < argmax_loop mp mi (length (pre @ [x])) xs. ((pre @ [x]) @ xs) ! j \<noteq> NaN)) \<and>
         (NaN \<notin> set xs \<longrightarrow>
            (\<forall>j < length ((pre @ [x]) @ xs).
               fl_le (((pre @ [x]) @ xs) ! j) (((pre @ [x]) @ xs) ! argmax_loop mp mi (length (pre @ [x])) xs)) \<and>
            (\<forall>j < argmax_loop mp mi (length (pre @ [x])) xs.
               fl_lt (((pre @ [x]) @ xs) ! j) (((pre @ [x]) @ xs) ! argmax_loop mp mi (length (pre @ [x])) xs)))"
      by (rule Cons.IH) (use Cons.prems x le lt in \<open>auto simp: nth_append\<close>)
    have step: "argmax_loop mp mi (length pre) (x # xs) = argmax_loop mp mi (length (pre @ [x])) xs"
      using True by simp
    have nan: "NaN \<in> set (x # xs) \<longleftrightarrow> NaN \<in> set xs" using x by auto
    show ?thesis unfolding step nan app by (rule ih)
  next
    case False
    show ?thesis
    proof (cases "x = NaN")
      case True
      have step: "argmax_loop mp mi (length pre) (x # xs) = length pre"
        using False True by (simp add: isnan_def)
      have "\<forall>j < length pre. (pre @ x # xs) ! j \<noteq> NaN"
        using Cons.prems(2) by (auto simp: nth_append dest: nth_mem)
      then show ?thesis unfolding step using True by (simp add: nth_append)
    next
      case x: False
      have lt_mp: "fl_lt mp x" using x mp False by (rule not_fl_le)
      have le: "\<forall>j < length (pre @ [x]). fl_le ((pre @ [x]) ! j) x"
        using Cons.prems(4) lt_mp x
        by (auto simp: nth_append fl_le_refl intro: fl_lt_imp_le fl_le_lt_trans)
      have lt: "\<forall>j < length pre. fl_lt ((pre @ [x]) ! j) x"
        using Cons.prems(4) lt_mp by (auto simp: nth_append intro: fl_le_lt_trans)
      have ih: "argmax_loop x (length pre) (length (pre @ [x])) xs < length ((pre @ [x]) @ xs) \<and>
         (NaN \<in> set xs \<longrightarrow>
            ((pre @ [x]) @ xs) ! argmax_loop x (length pre) (length (pre @ [x])) xs = NaN \<and>
            (\<forall>j < argmax_loop x (length pre) (length (pre @ [x])) xs. ((pre @ [x]) @ xs) ! j \<noteq> NaN)) \<and>
         (NaN \<notin> set xs \<longrightarrow>
            (\<forall>j < length ((pre @ [x]) @ xs).
               fl_le (((pre @ [x]) @ xs) ! j) (((pre @ [x]) @ xs) ! argmax_loop x (length pre) (length (pre @ [x])) xs)) \<and>
            (\<forall>j < argmax_loop x (length pre) (length (pre @ [x])) xs.
               fl_lt (((pre @ [x]) @ xs) ! j) (((pre @ [x]) @ xs) ! argmax_loop x (length pre) (length (pre @ [x])) xs)))"
        by (rule Cons.IH) (use Cons.prems x le lt in \<open>auto simp: nth_append\<close>)
      have step: "argmax_loop mp mi (length pre) (x # xs) =
          argmax_loop x (length pre) (length (pre @ [x])) xs"
        using False x by (simp add: isnan_def)
      have nan: "NaN \<in> set (x # xs) \<longleftrightarrow> NaN \<in> set xs" using x by auto
      show ?thesis unfolding step nan app by (rule ih)
    qed
  qed
qed

lemma argmin_loop_first_minimum:
  assumes "mi < length pre" "NaN \<notin> set pre" "pre ! mi = mp"
    and "\<forall>j < length pre. fl_le mp (pre ! j)"
    and "\<forall>j < mi. fl_lt mp (pre ! j)"
  shows "argmin_loop mp mi (length pre) xs < length (pre @ xs) \<and>
         (NaN \<in> set xs \<longrightarrow>
            (pre @ xs) ! argmin_loop mp mi (length pre) xs = NaN \<and>
            (\<forall>j < argmin_loop mp mi (length pre) xs. (pre @ xs) ! j \<noteq> NaN)) \<and>
         (NaN \<notin> set xs \<longrightarrow>
            (\<forall>j < length (pre @ xs).
               fl_le ((pre @ xs) ! argmin_loop mp mi (length pre) xs) ((pre @ xs) ! j)) \<and>
            (\<forall>j < argmin_loop mp mi (length pre) xs.
               fl_lt ((pre @ xs) ! argmin_loop mp mi (length pre) xs) ((pre @ xs) ! j)))"
  using assms
proof (induction xs arbitrary: pre mp mi)
  case Nil
  then show ?case by simp
next
  case (Cons x xs)
  have mp: "mp \<noteq> NaN" using Cons.prems(1,2,3) by (metis nth_mem)
  have app: "pre @ x # xs = (pre @ [x]) @ xs" by simp
  show ?case
  proof (cases "fl_ge x mp")
    case True
    then have x: "x \<noteq> NaN" by (simp add: fl_ge_def fl_le_not_NaN)
    have le: "\<forall>j < length (pre @ [x]). fl_le mp ((pre @ [x]) ! j)"
      using Cons.prems(4) True by (auto simp: nth_append fl_ge_def)
    have lt: "\<forall>j < mi. fl_lt mp ((pre @ [x]) ! j)"
      using Cons.prems(1,5) by (auto simp: nth_append)
    have ih: "argmin_loop mp mi (length (pre @ [x])) xs < length ((pre @ [x]) @ xs) \<and>
         (NaN \<in> set xs \<longrightarrow>
            ((pre @ [x]) @ xs) ! argmin_loop mp mi (length (pre @ [x])) xs = NaN \<and>
            (\<forall>j < argmin_loop mp mi (length (pre @ [x])) xs. ((pre @ [x]) @ xs) ! j \<noteq> NaN)) \<and>
         (NaN \<notin> set xs \<longrightarrow>
            (\<forall>j < length ((pre @ [x]) @ xs).
               fl_le (((pre @ [x]) @ xs) ! argmin_loop mp mi (length (pre @ [x])) xs) (((pre @ [x]) @ xs) ! j)) \<and>
            (\<forall>j < argmin_loop mp mi (length (pre @ [x])) xs.
               fl_lt (((pre @ [x]) @ xs) ! argmin_loop mp mi (length (pre @ [x])) xs) (((pre @ [x]) @ xs) ! j)))"
      by (rule Cons.IH) (use Cons.prems x le lt in \<open>auto simp: nth_append\<close>)
    have step: "argmin_loop mp mi (length pre) (x # xs) = argmin_loop mp mi (length (pre @ [x])) xs"
      using True by simp
    have nan: "NaN \<in> set (x # xs) \<longleftrightarrow> NaN \<in> set xs" using x by auto
    show ?thesis unfolding step nan app by (rule ih)
  next
    case False
    show ?thesis
    proof (cases "x = NaN")
      case True
      have step: "argmin_loop mp mi (length pre) (x # xs) = length pre"
        using False True by (simp add: isnan_def)
      have "\<forall>j < length pre. (pre @ x # xs) ! j \<noteq> NaN"
        using Cons.prems(2) by (auto simp: nth_append dest: nth_mem)
      then show ?thesis unfolding step using True by (simp add: nth_append)
    next
      case x: False
      have lt_mp: "fl_lt x mp" using mp x False[unfolded fl_ge_def] by (rule not_fl_le)
      have le: "\<forall>j < length (pre @ [x]). fl_le x ((pre @ [x]) ! j)"
        using Cons.prems(4) lt_mp x
        by (auto simp: nth_append fl_le_refl intro: fl_lt_imp_le fl_lt_le_trans)
      have lt: "\<forall>j < length pre. fl_lt x ((pre @ [x]) ! j)"
        using Cons.prems(4) lt_mp by (auto simp: nth_append intro: fl_lt_le_trans)
      have ih: "argmin_loop x (length pre) (length (pre @ [x])) xs < length ((pre @ [x]) @ xs) \<and>
         (NaN \<in> set xs \<longrightarrow>
            ((pre @ [x]) @ xs) ! argmin_loop x (length pre) (length (pre @ [x])) xs = NaN \<and>
            (\<forall>j < argmin_loop x (length pre) (length (pre @ [x])) xs. ((pre @ [x]) @ xs) ! j \<noteq> NaN)) \<and>
         (NaN \<notin> set xs \<longrightarrow>
            (\<forall>j < length ((pre @ [x]) @ xs).
               fl_le (((pre @ [x]) @ xs) ! argmin_loop x (length pre) (length (pre @ [x])) xs) (((pre @ [x]) @ xs) ! j)) \<and>
            (\<forall>j < argmin_loop x (length pre) (length (pre @ [x])) xs.
               fl_lt (((pre @ [x]) @ xs) ! argmin_loop x (length pre) (length (pre @ [x])) xs) (((pre @ [x]) @ xs) ! j)))"
        by (rule Cons.IH) (use Cons.prems x le lt in \<open>auto simp: nth_append\<close>)
      have step: "argmin_loop mp mi (length pre) (x # xs) =
          argmin_loop x (length pre) (length (pre @ [x])) xs"
        using False x by (simp add: isnan_def)
      have nan: "NaN \<in> set (x # xs) \<longleftrightarrow> NaN \<in> set xs" using x by auto
      show ?thesis unfolding step nan app by (rule ih)
    qed
  qed
qed

lemma np_argmax_first_maximum:
  assumes "vals \<noteq> []"
  shows "\<exists>b. np_argmax vals = Inr b \<and> b < length vals \<and>
           (NaN \<in> set vals \<longrightarrow> vals ! b = NaN \<and> (\<forall>j < b. vals ! j \<noteq> NaN)) \<and>
           (NaN \<notin> set vals \<longrightarrow>
              (\<forall>j < length vals. fl_le (vals ! j) (vals ! b)) \<and>
              (\<forall>j < b. fl_lt (vals ! j) (vals ! b)))"
proof -
  from assms obtain x xs where v: "vals = x # xs" by (cases vals) auto
  show ?thesis
  proof (cases "x = NaN")
    case True
    then show ?thesis by (simp add: v np_argmax_def isnan_def)
  next
    case False
    have "argmax_loop x 0 (length [x]) xs < length ([x] @ xs) \<and>
         (NaN \<in> set xs \<longrightarrow>
            ([x] @ xs) ! argmax_loop x 0 (length [x]) xs = NaN \<and>
            (\<forall>j < argmax_loop x 0 (length [x]) xs. ([x] @ xs) ! j \<noteq> NaN)) \<and>
         (NaN \<notin> set xs \<longrightarrow>
            (\<forall>j < length ([x] @ xs).
               fl_le (([x] @ xs) ! j) (([x] @ xs) ! argmax_loop x 0 (length [x]) xs)) \<and>
            (\<forall>j < argmax_loop x 0 (length [x]) xs.
               fl_lt (([x] @ xs) ! j) (([x] @ xs) ! argmax_loop x 0 (length [x]) xs)))"
      by (rule argmax_loop_first_maximum) (use False in \<open>simp_all add: fl_le_refl\<close>)
    moreover have "np_argmax vals = Inr (argmax_loop x 0 (length [x]) xs)"
      using False by (simp add: v np_argmax_def isnan_def)
    moreover have "NaN \<in> set vals \<longleftrightarrow> NaN \<in> set xs" using False by (auto simp: v)
    ultimately show ?thesis by (simp add: v)
  qed
qed

lemma np_argmin_first_minimum:
  assumes "vals \<noteq> []"
  shows "\<exists>b. np_argmin vals = Inr b \<and> b < length vals \<and>
           (NaN \<in> set vals \<longrightarrow> vals ! b = NaN \<and> (\<forall>j < b. vals ! j \<noteq> NaN)) \<and>
           (NaN \<notin> set vals \<longrightarrow>
              (\<forall>j < length vals. fl_le (vals ! b) (vals ! j)) \<and>
              (\<forall>j < b. fl_lt (vals ! b) (vals ! j)))"
proof -
  from assms obtain x xs where v: "vals = x # xs" by (cases vals) auto
  show ?thesis
  proof (cases "x = NaN")
    case True
    then show ?thesis by (simp add: v np_argmin_def isnan_def)
  next
    case False
    have "argmin_loop x 0 (length [x]) xs < length ([x] @ xs) \<and>
         (NaN \<in> set xs \<longrightarrow>
            ([x] @ xs) ! argmin_loop x 0 (length [x]) xs = NaN \<and>
            (\<forall>j < argmin_loop x 0 (length [x]) xs. ([x] @ xs) ! j \<noteq> NaN)) \<and>
         (NaN \<notin> set xs \<longrightarrow>
            (\<forall>j < length ([x] @ xs).
               fl_le (([x] @ xs) ! argmin_loop x 0 (length [x]) xs) (([x] @ xs) ! j)) \<and>
            (\<forall>j < argmin_loop x 0 (length [x]) xs.
               fl_lt (([x] @ xs) ! argmin_loop x 0 (length [x]) xs) (([x] @ xs) ! j)))"
      by (rule argmin_loop_first_minimum) (use False in \<open>simp_all add: fl_le_refl\<close>)
    moreover have "np_argmin vals = Inr (argmin_loop x 0 (length [x]) xs)"
      using False by (simp add: v np_argmin_def isnan_def)
    moreover have "NaN \<in> set vals \<longleftrightarrow> NaN \<in> set xs" using False by (auto simp: v)
    ultimately show ?thesis by (simp add: v)
  qed
qed

text \<open>
  What \<^verbatim>\<open>keep_one\<close> returns. On the empty vector it is the empty list, without error.
  On a non-empty vector it is the single index \<open>b + 1\<close>, where \<open>b\<close> is what
  \<^verbatim>\<open>np.argmax\<close> (maximize) or \<^verbatim>\<open>np.argmin\<close> (minimize) returns: with no NaN among the
  values, the first position holding the greatest (least) value; with a NaN among
  them, the position of the first NaN.
\<close>

lemma keep_one_scan:
  "keep_one wants_max [] = Inr [] \<and>
   (vals \<noteq> [] \<longrightarrow>
      (\<exists>b < length vals.
         (if wants_max then np_argmax vals else np_argmin vals) = Inr b \<and>
         keep_one wants_max vals = Inr [int b + 1] \<and>
         (NaN \<in> set vals \<longrightarrow> vals ! b = NaN \<and> (\<forall>j < b. vals ! j \<noteq> NaN)) \<and>
         (NaN \<notin> set vals \<longrightarrow>
            (\<forall>j < length vals. if wants_max then fl_le (vals ! j) (vals ! b)
                                else fl_le (vals ! b) (vals ! j)) \<and>
            (\<forall>j < b. if wants_max then fl_lt (vals ! j) (vals ! b)
                      else fl_lt (vals ! b) (vals ! j)))))"
proof (intro conjI impI)
  show "keep_one wants_max [] = Inr []"
    by (simp add: keep_one_def)
next
  assume ne: "vals \<noteq> []"
  show "\<exists>b < length vals.
         (if wants_max then np_argmax vals else np_argmin vals) = Inr b \<and>
         keep_one wants_max vals = Inr [int b + 1] \<and>
         (NaN \<in> set vals \<longrightarrow> vals ! b = NaN \<and> (\<forall>j < b. vals ! j \<noteq> NaN)) \<and>
         (NaN \<notin> set vals \<longrightarrow>
            (\<forall>j < length vals. if wants_max then fl_le (vals ! j) (vals ! b)
                                else fl_le (vals ! b) (vals ! j)) \<and>
            (\<forall>j < b. if wants_max then fl_lt (vals ! j) (vals ! b)
                      else fl_lt (vals ! b) (vals ! j)))"
  proof (cases wants_max)
    case True
    from np_argmax_first_maximum[OF ne] obtain b where
      "np_argmax vals = Inr b" "b < length vals"
      "NaN \<in> set vals \<longrightarrow> vals ! b = NaN \<and> (\<forall>j < b. vals ! j \<noteq> NaN)"
      "NaN \<notin> set vals \<longrightarrow>
              (\<forall>j < length vals. fl_le (vals ! j) (vals ! b)) \<and>
              (\<forall>j < b. fl_lt (vals ! j) (vals ! b))"
      by blast
    with True ne show ?thesis
      by (intro exI[of _ b]) (simp add: keep_one_def)
  next
    case False
    from np_argmin_first_minimum[OF ne] obtain b where
      "np_argmin vals = Inr b" "b < length vals"
      "NaN \<in> set vals \<longrightarrow> vals ! b = NaN \<and> (\<forall>j < b. vals ! j \<noteq> NaN)"
      "NaN \<notin> set vals \<longrightarrow>
              (\<forall>j < length vals. fl_le (vals ! b) (vals ! j)) \<and>
              (\<forall>j < b. fl_lt (vals ! b) (vals ! j))"
      by blast
    with False ne show ?thesis
      by (intro exI[of _ b]) (simp add: keep_one_def)
  qed
qed

text \<open>
  Without a NaN among the values the object kept is the first one that holds the
  extreme value.
\<close>

lemma keep_one_without_NaN:
  assumes "vals \<noteq> []" "NaN \<notin> set vals"
  shows "\<exists>b < length vals.
           keep_one wants_max vals = Inr [int b + 1] \<and>
           (\<forall>j < length vals. if wants_max then fl_le (vals ! j) (vals ! b)
                               else fl_le (vals ! b) (vals ! j)) \<and>
           (\<forall>j < b. if wants_max then fl_lt (vals ! j) (vals ! b)
                     else fl_lt (vals ! b) (vals ! j))"
  using keep_one_scan[of wants_max vals] assms by blast


subsection \<open>\<^verbatim>\<open>keep_within_limits\<close>\<close>

lemma mask_clear_Inr:
  assumes "length msk \<le> length hits"
    and "era = Legacy \<or> length msk = length hits \<or> msk = []"
  shows "mask_clear era hits msk =
           Inr (map (\<lambda>j. hits ! j \<and> \<not> (j < length msk \<and> msk ! j)) [0..<length hits])"
proof (cases "length msk = length hits")
  case True
  have "map (\<lambda>(h, m). h \<and> \<not> m) (zip hits msk) =
        map (\<lambda>j. hits ! j \<and> \<not> (j < length msk \<and> msk ! j)) [0..<length hits]"
    using True by (intro nth_equalityI) simp_all
  with True show ?thesis by (simp add: mask_clear_def)
next
  case False
  show ?thesis
  proof (cases era)
    case Legacy
    moreover from False assms(1) have "length msk < length hits" by simp
    ultimately show ?thesis using False by (auto simp: mask_clear_def)
  next
    case Current
    with False assms(2) have empty: "msk = []" by auto
    have "map (\<lambda>j. hits ! j \<and> \<not> (j < length msk \<and> msk ! j)) [0..<length hits] = hits"
      by (simp add: empty map_nth)
    with False Current empty show ?thesis by (simp add: mask_clear_def)
  qed
qed

lemma mask_clear_Current_mismatch:
  "length msk \<noteq> length hits \<Longrightarrow> msk \<noteq> [] \<Longrightarrow> mask_clear Current hits msk = Inl IndexError"
  by (simp add: mask_clear_def)

lemma limits_step_Inr:
  assumes "era = Legacy \<or>
           (\<forall>h. hits = Some h \<longrightarrow>
                length h = length (group_values g) \<or> h = [] \<or> group_values g = [])"
  shows "\<exists>h'. limits_step era hits g = Inr (Some h') \<and>
           length h' = max (case hits of None \<Rightarrow> 0 | Some h \<Rightarrow> length h) (length (group_values g)) \<and>
           (\<forall>j < length h'.
              h' ! j \<longleftrightarrow>
                (case hits of None \<Rightarrow> True | Some h \<Rightarrow> j < length h \<longrightarrow> h ! j) \<and>
                (j < length (group_values g) \<longrightarrow>
                   \<not> (wants_minimum g \<and> fl_lt (group_values g ! j) (min_limit g)) \<and>
                   \<not> (wants_maximum g \<and> fl_gt (group_values g ! j) (max_limit g))))"
proof -
  let ?vals = "group_values g"
  let ?n = "length ?vals"
  let ?old = "\<lambda>j. case hits of None \<Rightarrow> True | Some h \<Rightarrow> j < length h \<longrightarrow> h ! j"
  let ?len = "max (case hits of None \<Rightarrow> 0 | Some h \<Rightarrow> length h) ?n"
  obtain h1 where h1:
    "(case hits of
        None \<Rightarrow> Inr (replicate ?n True)
      | Some h \<Rightarrow>
          if length h < ?n then mask_clear era (replicate ?n True) (map Not h) else Inr h) = Inr h1"
    "length h1 = ?len" "\<forall>j < length h1. h1 ! j \<longleftrightarrow> ?old j"
  proof (cases hits)
    case None
    then show ?thesis by (intro that[of "replicate ?n True"]) simp_all
  next
    case (Some h)
    show ?thesis
    proof (cases "length h < ?n")
      case True
      with assms Some have leg: "era = Legacy \<or> h = []" by auto
      have "mask_clear era (replicate ?n True) (map Not h) =
          Inr (map (\<lambda>j. replicate ?n True ! j \<and> \<not> (j < length (map Not h) \<and> map Not h ! j))
                 [0..<length (replicate ?n True)])"
        by (rule mask_clear_Inr) (use True leg in auto)
      with True Some show ?thesis
        by (intro that[of "map (\<lambda>j. replicate ?n True ! j \<and> \<not> (j < length (map Not h) \<and> map Not h ! j))
                 [0..<length (replicate ?n True)]"]) auto
    next
      case False
      with Some show ?thesis by (intro that[of h]) auto
    qed
  qed
  have n_le: "?n \<le> length h1" using h1(2) by simp
  have era1: "era = Legacy \<or> ?n = length h1 \<or> ?vals = []"
    using assms h1(2) by (cases hits) auto
  define m1 where "m1 = map (\<lambda>v. fl_lt v (min_limit g)) ?vals"
  define h2 where "h2 = (if wants_minimum g
      then map (\<lambda>j. h1 ! j \<and> \<not> (j < length m1 \<and> m1 ! j)) [0..<length h1] else h1)"
  have s2: "(if wants_minimum g then mask_clear era h1 m1 else Inr h1) = Inr h2"
    using mask_clear_Inr[of m1 h1 era] n_le era1 by (simp add: h2_def m1_def)
  have l2: "length h2 = length h1" by (simp add: h2_def)
  have p2: "\<forall>j < length h2. h2 ! j \<longleftrightarrow>
      h1 ! j \<and> (j < ?n \<longrightarrow> \<not> (wants_minimum g \<and> fl_lt (?vals ! j) (min_limit g)))"
    by (auto simp: h2_def m1_def)
  define m2 where "m2 = map (\<lambda>v. fl_gt v (max_limit g)) ?vals"
  define h3 where "h3 = (if wants_maximum g
      then map (\<lambda>j. h2 ! j \<and> \<not> (j < length m2 \<and> m2 ! j)) [0..<length h2] else h2)"
  have s3: "(if wants_maximum g then mask_clear era h2 m2 else Inr h2) = Inr h3"
    using mask_clear_Inr[of m2 h2 era] n_le era1 l2 by (simp add: h3_def m2_def)
  have l3: "length h3 = length h2" by (simp add: h3_def)
  have p3: "\<forall>j < length h3. h3 ! j \<longleftrightarrow>
      h2 ! j \<and> (j < ?n \<longrightarrow> \<not> (wants_maximum g \<and> fl_gt (?vals ! j) (max_limit g)))"
    by (auto simp: h3_def m2_def)
  have "limits_step era hits g = Inr (Some h3)"
    unfolding limits_step_def h1(1) m1_def[symmetric] m2_def[symmetric] sum.case s2 s3 ..
  moreover have "length h3 = ?len" using l3 l2 h1(2) by simp
  moreover have "\<forall>j < length h3. h3 ! j \<longleftrightarrow> ?old j \<and>
      (j < ?n \<longrightarrow> \<not> (wants_minimum g \<and> fl_lt (?vals ! j) (min_limit g)) \<and>
                   \<not> (wants_maximum g \<and> fl_gt (?vals ! j) (max_limit g)))"
    using p3 p2 h1(3) l3 l2 by auto
  ultimately show ?thesis by blast
qed

lemma limits_loop_Inr:
  assumes "era = Legacy \<or>
           ((h = [] \<or> length h = n) \<and>
            (\<forall>g \<in> set gs. group_values g = [] \<or> length (group_values g) = n))"
  shows "\<exists>h'. limits_loop era (Some h) gs = Inr (Some h') \<and>
           length h' = fold max (map (\<lambda>g. length (group_values g)) gs) (length h) \<and>
           (\<forall>j < length h'.
              h' ! j \<longleftrightarrow>
                (j < length h \<longrightarrow> h ! j) \<and>
                (\<forall>g \<in> set gs. j < length (group_values g) \<longrightarrow>
                   \<not> (wants_minimum g \<and> fl_lt (group_values g ! j) (min_limit g)) \<and>
                   \<not> (wants_maximum g \<and> fl_gt (group_values g ! j) (max_limit g))))"
  using assms
proof (induction gs arbitrary: h)
  case Nil
  then show ?case by simp
next
  case (Cons g gs)
  let ?n = "length (group_values g)"
  have "era = Legacy \<or>
        (\<forall>h'. Some h = Some h' \<longrightarrow> length h' = ?n \<or> h' = [] \<or> group_values g = [])"
    using Cons.prems by auto
  from limits_step_Inr[OF this] obtain h1 where h1:
    "limits_step era (Some h) g = Inr (Some h1)"
    "length h1 = max (length h) ?n"
    "\<forall>j < length h1. h1 ! j \<longleftrightarrow> (j < length h \<longrightarrow> h ! j) \<and>
        (j < ?n \<longrightarrow> \<not> (wants_minimum g \<and> fl_lt (group_values g ! j) (min_limit g)) \<and>
                     \<not> (wants_maximum g \<and> fl_gt (group_values g ! j) (max_limit g)))"
    by auto
  have "era = Legacy \<or>
        ((h1 = [] \<or> length h1 = n) \<and>
         (\<forall>g' \<in> set gs. group_values g' = [] \<or> length (group_values g') = n))"
    using Cons.prems h1(2) by (cases "h1 = []") auto
  from Cons.IH[OF this] obtain h' where h':
    "limits_loop era (Some h1) gs = Inr (Some h')"
    "length h' = fold max (map (\<lambda>g. length (group_values g)) gs) (length h1)"
    "\<forall>j < length h'. h' ! j \<longleftrightarrow> (j < length h1 \<longrightarrow> h1 ! j) \<and>
        (\<forall>g \<in> set gs. j < length (group_values g) \<longrightarrow>
           \<not> (wants_minimum g \<and> fl_lt (group_values g ! j) (min_limit g)) \<and>
           \<not> (wants_maximum g \<and> fl_gt (group_values g ! j) (max_limit g)))"
    by auto
  have run: "limits_loop era (Some h) (g # gs) = Inr (Some h')"
    using h1(1) h'(1) by simp
  have len: "length h' = fold max (map (\<lambda>g. length (group_values g)) (g # gs)) (length h)"
    using h'(2) h1(2) by (simp add: max.commute)
  have old: "(j < length h1 \<longrightarrow> h1 ! j) \<longleftrightarrow> (j < length h \<longrightarrow> h ! j) \<and>
        (j < ?n \<longrightarrow> \<not> (wants_minimum g \<and> fl_lt (group_values g ! j) (min_limit g)) \<and>
                     \<not> (wants_maximum g \<and> fl_gt (group_values g ! j) (max_limit g)))" for j
  proof (cases "j < length h1")
    case True
    then show ?thesis using h1(3) by simp
  next
    case False
    then have "\<not> j < length h" "\<not> j < ?n" using h1(2) by auto
    with False show ?thesis by simp
  qed
  have "\<forall>j < length h'. h' ! j \<longleftrightarrow> (j < length h \<longrightarrow> h ! j) \<and>
        (\<forall>g' \<in> set (g # gs). j < length (group_values g') \<longrightarrow>
           \<not> (wants_minimum g' \<and> fl_lt (group_values g' ! j) (min_limit g')) \<and>
           \<not> (wants_maximum g' \<and> fl_gt (group_values g' ! j) (max_limit g')))"
    using h'(3) old by auto
  with run len show ?case by blast
qed

lemma keep_within_limits_Inr:
  assumes "groups \<noteq> []"
    and "era = Legacy \<or>
         (\<forall>g \<in> set groups. group_values g = [] \<or> length (group_values g) = n)"
  shows "\<exists>r. keep_within_limits era groups = Inr r \<and> sorted_wrt (<) r \<and>
           (\<forall>i. i \<in> set r \<longleftrightarrow>
              1 \<le> i \<and> i \<le> int (Max (set (map (\<lambda>g. length (group_values g)) groups))) \<and>
              (\<forall>g \<in> set groups. nat (i - 1) < length (group_values g) \<longrightarrow>
                 \<not> (wants_minimum g \<and> fl_lt (group_values g ! nat (i - 1)) (min_limit g)) \<and>
                 \<not> (wants_maximum g \<and> fl_gt (group_values g ! nat (i - 1)) (max_limit g))))"
proof -
  from assms(1) obtain g gs where groups: "groups = g # gs" by (cases groups) auto
  let ?n = "length (group_values g)"
  let ?ok = "\<lambda>g j. \<not> (wants_minimum g \<and> fl_lt (group_values g ! j) (min_limit g)) \<and>
                   \<not> (wants_maximum g \<and> fl_gt (group_values g ! j) (max_limit g))"
  from limits_step_Inr[of era None g] obtain h1 where h1:
    "limits_step era None g = Inr (Some h1)" "length h1 = ?n"
    "\<forall>j < length h1. h1 ! j \<longleftrightarrow> (j < ?n \<longrightarrow> ?ok g j)"
    by auto
  have "era = Legacy \<or>
        ((h1 = [] \<or> length h1 = n) \<and>
         (\<forall>g' \<in> set gs. group_values g' = [] \<or> length (group_values g') = n))"
    using assms(2) h1(2) by (cases "h1 = []") (auto simp: groups)
  from limits_loop_Inr[OF this] obtain h' where h':
    "limits_loop era (Some h1) gs = Inr (Some h')"
    "length h' = fold max (map (\<lambda>g. length (group_values g)) gs) (length h1)"
    "\<forall>j < length h'. h' ! j \<longleftrightarrow> (j < length h1 \<longrightarrow> h1 ! j) \<and>
        (\<forall>g \<in> set gs. j < length (group_values g) \<longrightarrow> ?ok g j)"
    by auto
  have len: "length h' = Max (set (map (\<lambda>g. length (group_values g)) groups))"
    using h'(2) h1(2) by (simp add: groups Max.set_eq_fold[symmetric])
  have res: "keep_within_limits era groups = Inr (argwhere1 h')"
    using h1(1) h'(1) by (simp add: keep_within_limits_def groups)
  have bit: "h' ! j \<longleftrightarrow> (\<forall>g \<in> set groups. j < length (group_values g) \<longrightarrow> ?ok g j)"
    if "j < length h'" for j
    using h'(3) h1(2,3) that by (auto simp: groups)
  have mem: "i \<in> set (argwhere1 h') \<longleftrightarrow>
      1 \<le> i \<and> i \<le> int (length h') \<and>
      (\<forall>g \<in> set groups. nat (i - 1) < length (group_values g) \<longrightarrow> ?ok g (nat (i - 1)))" for i
  proof (cases "1 \<le> i \<and> i \<le> int (length h')")
    case True
    then have i: "i = int (nat (i - 1)) + 1" "nat (i - 1) < length h'" by auto
    have "i \<in> set (argwhere1 h') \<longleftrightarrow> h' ! nat (i - 1)"
      using argwhere1_mem[of "nat (i - 1)" h'] i by simp
    with True bit[OF i(2)] show ?thesis by simp
  next
    case False
    with argwhere1_bounds[of i h'] show ?thesis by auto
  qed
  show ?thesis
    unfolding res len[symmetric] using mem argwhere1_sorted by blast
qed

lemma limits_step_Current_mismatch:
  assumes "length h \<noteq> length (group_values g)" "h \<noteq> []" "group_values g \<noteq> []"
    and "wants_minimum g \<or> wants_maximum g"
  shows "limits_step Current (Some h) g = Inl IndexError"
proof (cases "length h < length (group_values g)")
  case True
  have "mask_clear Current (replicate (length (group_values g)) True) (map Not h) = Inl IndexError"
    using True assms(2) by (intro mask_clear_Current_mismatch) simp_all
  with True show ?thesis by (simp add: limits_step_def)
next
  case False
  have m1: "mask_clear Current h (map (\<lambda>v. fl_lt v (min_limit g)) (group_values g)) = Inl IndexError"
    using assms(1,3) by (intro mask_clear_Current_mismatch) simp_all
  have m2: "mask_clear Current h (map (\<lambda>v. fl_gt v (max_limit g)) (group_values g)) = Inl IndexError"
    using assms(1,3) by (intro mask_clear_Current_mismatch) simp_all
  show ?thesis
  proof (cases "wants_minimum g")
    case True
    with False m1 show ?thesis by (simp add: limits_step_def)
  next
    case no_min: False
    with assms(4) have "wants_maximum g" by simp
    with False no_min m2 show ?thesis by (simp add: limits_step_def)
  qed
qed

lemma limits_loop_Current_mismatch:
  assumes "\<forall>g \<in> set gs. wants_minimum g \<or> wants_maximum g"
    and "h \<noteq> []"
    and "\<exists>g \<in> set gs. group_values g \<noteq> [] \<and> length (group_values g) \<noteq> length h"
  shows "limits_loop Current (Some h) gs = Inl IndexError"
  using assms
proof (induction gs arbitrary: h)
  case Nil
  then show ?case by simp
next
  case (Cons g gs)
  show ?case
  proof (cases "group_values g = [] \<or> length (group_values g) = length h")
    case True
    then have "Current = Legacy \<or>
        (\<forall>h'. Some h = Some h' \<longrightarrow>
            length h' = length (group_values g) \<or> h' = [] \<or> group_values g = [])"
      by auto
    from limits_step_Inr[OF this] True obtain h1 where h1:
      "limits_step Current (Some h) g = Inr (Some h1)" "length h1 = length h"
      by auto
    from h1(2) Cons.prems(2) have "h1 \<noteq> []" by auto
    moreover have "\<exists>g' \<in> set gs. group_values g' \<noteq> [] \<and> length (group_values g') \<noteq> length h1"
      using Cons.prems(3) True h1(2) by auto
    moreover have "\<forall>g' \<in> set gs. wants_minimum g' \<or> wants_maximum g'"
      using Cons.prems(1) by simp
    ultimately have "limits_loop Current (Some h1) gs = Inl IndexError"
      by (intro Cons.IH)
    with h1(1) show ?thesis by simp
  next
    case False
    then have "limits_step Current (Some h) g = Inl IndexError"
      using Cons.prems(1,2) by (intro limits_step_Current_mismatch) auto
    then show ?thesis by simp
  qed
qed

lemma limits_loop_Current_two_lengths:
  assumes "\<forall>g \<in> set gs. wants_minimum g \<or> wants_maximum g"
    and "\<exists>g \<in> set gs. \<exists>g' \<in> set gs. group_values g \<noteq> [] \<and> group_values g' \<noteq> [] \<and>
           length (group_values g) \<noteq> length (group_values g')"
  shows "limits_loop Current (Some []) gs = Inl IndexError"
  using assms
proof (induction gs)
  case Nil
  then show ?case by simp
next
  case (Cons g gs)
  have "Current = Legacy \<or>
        (\<forall>h'. Some [] = Some h' \<longrightarrow>
            length h' = length (group_values g) \<or> h' = [] \<or> group_values g = [])"
    by simp
  from limits_step_Inr[OF this] obtain h1 where h1:
    "limits_step Current (Some []) g = Inr (Some h1)" "length h1 = length (group_values g)"
    by auto
  have wants: "\<forall>g' \<in> set gs. wants_minimum g' \<or> wants_maximum g'"
    using Cons.prems(1) by simp
  from Cons.prems(2) obtain ga gb where ab: "ga \<in> set (g # gs)" "gb \<in> set (g # gs)"
    "group_values ga \<noteq> []" "group_values gb \<noteq> []"
    "length (group_values ga) \<noteq> length (group_values gb)"
    by blast
  show ?case
  proof (cases "group_values g = []")
    case True
    with ab have "ga \<in> set gs" "gb \<in> set gs" by auto
    with ab have "\<exists>g \<in> set gs. \<exists>g' \<in> set gs. group_values g \<noteq> [] \<and> group_values g' \<noteq> [] \<and>
           length (group_values g) \<noteq> length (group_values g')"
      by blast
    with wants have "limits_loop Current (Some []) gs = Inl IndexError"
      by (intro Cons.IH)
    moreover from True h1(2) have "h1 = []" by simp
    ultimately show ?thesis using h1(1) by simp
  next
    case False
    with h1(2) have ne: "h1 \<noteq> []" by auto
    have "\<exists>g' \<in> set gs. group_values g' \<noteq> [] \<and> length (group_values g') \<noteq> length h1"
    proof (cases "length (group_values ga) = length h1")
      case True
      with ab(5) h1(2) have "gb \<noteq> g" by auto
      with ab(2) have "gb \<in> set gs" by simp
      with ab(4,5) True show ?thesis by auto
    next
      case False
      with h1(2) have "ga \<noteq> g" by auto
      with ab(1) have "ga \<in> set gs" by simp
      with ab(3) False show ?thesis by auto
    qed
    with wants ne have "limits_loop Current (Some h1) gs = Inl IndexError"
      by (intro limits_loop_Current_mismatch)
    with h1(1) show ?thesis by simp
  qed
qed

lemma limits_step_Current_None: "limits_step Current None g = limits_step Current (Some []) g"
  by (simp add: limits_step_def mask_clear_def)

text \<open>
  Claim C5, as amended. When the vectors differ in length the longest one governs, and
  an index beyond a shorter vector is not tested against that group. With the boolean
  indexing of the numpy the module was written for (\<open>Legacy\<close>), and on \<open>Current\<close>
  numpy whenever all vectors that are not empty have one length \<open>n\<close>, no error is
  raised, the result is strictly increasing, and index \<open>i\<close> is returned exactly when
  it lies within the longest vector and, for every group whose vector reaches \<open>i\<close>,
  the value there is not below an active minimum and not above an active maximum.
  With \<open>Current\<close> numpy the pass raises IndexError instead, as soon as every group
  has an active limit and two vectors that are not empty differ in length.
\<close>

theorem limits_longest_vector_governs:
  assumes "groups \<noteq> []"
  shows "(era = Legacy \<or>
          (\<forall>g \<in> set groups. group_values g = [] \<or> length (group_values g) = n) \<longrightarrow>
          (\<exists>r. keep_within_limits era groups = Inr r \<and> sorted_wrt (<) r \<and>
             (\<forall>i. i \<in> set r \<longleftrightarrow>
                1 \<le> i \<and> i \<le> int (Max (set (map (\<lambda>g. length (group_values g)) groups))) \<and>
                (\<forall>g \<in> set groups. nat (i - 1) < length (group_values g) \<longrightarrow>
                   \<not> (wants_minimum g \<and> fl_lt (group_values g ! nat (i - 1)) (min_limit g)) \<and>
                   \<not> (wants_maximum g \<and> fl_gt (group_values g ! nat (i - 1)) (max_limit g)))))) \<and>
         ((\<forall>g \<in> set groups. wants_minimum g \<or> wants_maximum g) \<and>
          (\<exists>g \<in> set groups. \<exists>g' \<in> set groups.
              group_values g \<noteq> [] \<and> group_values g' \<noteq> [] \<and>
              length (group_values g) \<noteq> length (group_values g')) \<longrightarrow>
            keep_within_limits Current groups = Inl IndexError)"
proof (intro conjI impI)
  assume "era = Legacy \<or>
          (\<forall>g \<in> set groups. group_values g = [] \<or> length (group_values g) = n)"
  with assms show "\<exists>r. keep_within_limits era groups = Inr r \<and> sorted_wrt (<) r \<and>
             (\<forall>i. i \<in> set r \<longleftrightarrow>
                1 \<le> i \<and> i \<le> int (Max (set (map (\<lambda>g. length (group_values g)) groups))) \<and>
                (\<forall>g \<in> set groups. nat (i - 1) < length (group_values g) \<longrightarrow>
                   \<not> (wants_minimum g \<and> fl_lt (group_values g ! nat (i - 1)) (min_limit g)) \<and>
                   \<not> (wants_maximum g \<and> fl_gt (group_values g ! nat (i - 1)) (max_limit g))))"
    by (rule keep_within_limits_Inr)
next
  assume a: "(\<forall>g \<in> set groups. wants_minimum g \<or> wants_maximum g) \<and>
          (\<exists>g \<in> set groups. \<exists>g' \<in> set groups.
              group_values g \<noteq> [] \<and> group_values g' \<noteq> [] \<and>
              length (group_values g) \<noteq> length (group_values g'))"
  from assms obtain g gs where groups: "groups = g # gs" by (cases groups) auto
  have "limits_loop Current None groups = limits_loop Current (Some []) groups"
    by (simp add: groups limits_step_Current_None)
  moreover from a have "limits_loop Current (Some []) groups = Inl IndexError"
    by (intro limits_loop_Current_two_lengths) blast+
  ultimately show "keep_within_limits Current groups = Inl IndexError"
    by (simp add: keep_within_limits_def)
qed

theorem limits_longest_vector_governs_witness:
  "(\<exists>r. keep_within_limits Legacy
          [\<lparr>group_values = [Finite 5, Finite 20], wants_minimum = True, min_limit = Finite 10,
            wants_maximum = False, max_limit = Finite 1\<rparr>,
           \<lparr>group_values = [Finite 3, Finite 3, Finite 3, Finite 9], wants_minimum = False,
            min_limit = Finite 0, wants_maximum = True, max_limit = Finite 5\<rparr>] = Inr r \<and>
        1 \<notin> set r \<and> 3 \<in> set r \<and> 4 \<notin> set r) \<and>
   keep_within_limits Current
          [\<lparr>group_values = [Finite 5, Finite 20], wants_minimum = True, min_limit = Finite 10,
            wants_maximum = False, max_limit = Finite 1\<rparr>,
           \<lparr>group_values = [Finite 3, Finite 3, Finite 3, Finite 9], wants_minimum = False,
            min_limit = Finite 0, wants_maximum = True, max_limit = Finite 5\<rparr>] = Inl IndexError \<and>
   (\<exists>r. keep_within_limits Current
          [\<lparr>group_values = [Finite 20, Finite 5], wants_minimum = True, min_limit = Finite 10,
            wants_maximum = False, max_limit = Finite 1\<rparr>,
           \<lparr>group_values = [], wants_minimum = False,
            min_limit = Finite 0, wants_maximum = True, max_limit = Finite 5\<rparr>] = Inr r \<and>
        1 \<in> set r \<and> 2 \<notin> set r)"
proof (intro conjI)
  let ?g = "[\<lparr>group_values = [Finite 5, Finite 20], wants_minimum = True, min_limit = Finite 10,
            wants_maximum = False, max_limit = Finite 1\<rparr>,
           \<lparr>group_values = [Finite 3, Finite 3, Finite 3, Finite 9], wants_minimum = False,
            min_limit = Finite 0, wants_maximum = True, max_limit = Finite 5\<rparr>]"
  let ?e = "[\<lparr>group_values = [Finite 20, Finite 5], wants_minimum = True, min_limit = Finite 10,
            wants_maximum = False, max_limit = Finite 1\<rparr>,
           \<lparr>group_values = [], wants_minimum = False,
            min_limit = Finite 0, wants_maximum = True, max_limit = Finite 5\<rparr>]"
  have ne: "?g \<noteq> []" by simp
  note t = limits_longest_vector_governs[OF ne, of Legacy 0]
  from t obtain r where r: "keep_within_limits Legacy ?g = Inr r"
    "\<forall>i. i \<in> set r \<longleftrightarrow>
              1 \<le> i \<and> i \<le> int (Max (set (map (\<lambda>g. length (group_values g)) ?g))) \<and>
              (\<forall>g \<in> set ?g. nat (i - 1) < length (group_values g) \<longrightarrow>
                 \<not> (wants_minimum g \<and> fl_lt (group_values g ! nat (i - 1)) (min_limit g)) \<and>
                 \<not> (wants_maximum g \<and> fl_gt (group_values g ! nat (i - 1)) (max_limit g)))"
    by blast
  have "1 \<notin> set r" using r(2)[rule_format, of 1] by simp
  moreover have "3 \<in> set r" using r(2)[rule_format, of 3] by (simp add: fl_gt_def)
  moreover have "4 \<notin> set r" using r(2)[rule_format, of 4] by (simp add: fl_gt_def)
  ultimately show "\<exists>r. keep_within_limits Legacy ?g = Inr r \<and> 1 \<notin> set r \<and> 3 \<in> set r \<and> 4 \<notin> set r"
    using r(1) by blast
  show "keep_within_limits Current ?g = Inl IndexError"
    using t by simp
  have ne': "?e \<noteq> []" by simp
  note u = limits_longest_vector_governs[OF ne', of Current 2]
  from u obtain q where q: "keep_within_limits Current ?e = Inr q"
    "\<forall>i. i \<in> set q \<longleftrightarrow>
              1 \<le> i \<and> i \<le> int (Max (set (map (\<lambda>g. length (group_values g)) ?e))) \<and>
              (\<forall>g \<in> set ?e. nat (i - 1) < length (group_values g) \<longrightarrow>
                 \<not> (wants_minimum g \<and> fl_lt (group_values g ! nat (i - 1)) (min_limit g)) \<and>
                 \<not> (wants_maximum g \<and> fl_gt (group_values g ! nat (i - 1)) (max_limit g)))"
    by auto
  have "1 \<in> set q" using q(2)[rule_format, of 1] by simp
  moreover have "2 \<notin> set q" using q(2)[rule_format, of 2] by simp
  ultimately show "\<exists>r. keep_within_limits Current ?e = Inr r \<and> 1 \<in> set r \<and> 2 \<notin> set r"
    using q(1) by blast
qed

text \<open>
  The claim as stated fails. With a first vector of length 1 and a second of length
  2, both within their limits, \<open>Legacy\<close> returns the indexes 1 and 2, the second
  beyond the shortest vector, and \<open>Current\<close> raises IndexError. With a vector of
  length 1 and an empty one, index 1 is returned in both eras, although the shortest
  vector has no entry at all.
\<close>

theorem limits_shortest_vector_counterexample:
  "keep_within_limits Legacy
     [\<lparr>group_values = [Finite 5], wants_minimum = True, min_limit = Finite 0,
       wants_maximum = False, max_limit = Finite 1\<rparr>,
      \<lparr>group_values = [Finite 5, Finite 5], wants_minimum = True, min_limit = Finite 0,
       wants_maximum = False, max_limit = Finite 1\<rparr>] = Inr [1, 2] \<and>
   keep_within_limits Current
     [\<lparr>group_values = [Finite 5], wants_minimum = True, min_limit = Finite 0,
       wants_maximum = False, max_limit = Finite 1\<rparr>,
      \<lparr>group_values = [Finite 5, Finite 5], wants_minimum = True, min_limit = Finite 0,
       wants_maximum = False, max_limit = Finite 1\<rparr>] = Inl IndexError \<and>
   keep_within_limits Current
     [\<lparr>group_values = [Finite 5], wants_minimum = True, min_limit = Finite 0,
       wants_maximum = False, max_limit = Finite 1\<rparr>,
      \<lparr>group_values = [], wants_minimum = True, min_limit = Finite 0,
       wants_maximum = False, max_limit = Finite 1\<rparr>] = Inr [1] \<and>
   keep_within_limits Current
     [\<lparr>group_values = [], wants_minimum = True, min_limit = Finite 0,
       wants_maximum = False, max_limit = Finite 1\<rparr>,
      \<lparr>group_values = [Finite 5], wants_minimum = True, min_limit = Finite 0,
       wants_maximum = False, max_limit = Finite 1\<rparr>] = Inr [1] \<and>
   keep_within_limits Legacy
     [\<lparr>group_values = [Finite 5], wants_minimum = True, min_limit = Finite 0,
       wants_maximum = False, max_limit = Finite 1\<rparr>,
      \<lparr>group_values = [], wants_minimum = True, min_limit = Finite 0,
       wants_maximum = False, max_limit = Finite 1\<rparr>] = Inr [1]"
  by code_simp

text \<open>
  When no value and no limit is NaN and all vectors have the length \<open>n\<close>, the result
  is as the settings describe it: index \<open>i\<close> is returned exactly when every active
  minimum is at most the value and every active maximum at least the value.
\<close>

lemma fl_lt_iff_not_ge: "a \<noteq> NaN \<Longrightarrow> b \<noteq> NaN \<Longrightarrow> fl_lt a b \<longleftrightarrow> \<not> fl_ge a b"
  by (cases a; cases b) (auto simp: fl_ge_def)

lemma fl_gt_iff_not_le: "a \<noteq> NaN \<Longrightarrow> b \<noteq> NaN \<Longrightarrow> fl_gt a b \<longleftrightarrow> \<not> fl_le a b"
  by (cases a; cases b) (auto simp: fl_gt_def)

lemma keep_within_limits_without_NaN:
  assumes "groups \<noteq> []"
    and "\<forall>g \<in> set groups. length (group_values g) = n"
    and "\<forall>g \<in> set groups. NaN \<notin> set (group_values g) \<and> min_limit g \<noteq> NaN \<and> max_limit g \<noteq> NaN"
  shows "\<exists>r. keep_within_limits era groups = Inr r \<and> sorted_wrt (<) r \<and>
           (\<forall>i. i \<in> set r \<longleftrightarrow>
              1 \<le> i \<and> i \<le> int n \<and>
              (\<forall>g \<in> set groups.
                 (wants_minimum g \<longrightarrow> fl_ge (group_values g ! nat (i - 1)) (min_limit g)) \<and>
                 (wants_maximum g \<longrightarrow> fl_le (group_values g ! nat (i - 1)) (max_limit g))))"
proof -
  have mx: "Max (set (map (\<lambda>g. length (group_values g)) groups)) = n"
  proof -
    have "set (map (\<lambda>g. length (group_values g)) groups) = {n}"
      using assms(1,2) by (cases groups) auto
    then show ?thesis by simp
  qed
  from keep_within_limits_Inr[OF assms(1), of era n] assms(2)
  obtain r where r: "keep_within_limits era groups = Inr r" "sorted_wrt (<) r"
    "\<forall>i. i \<in> set r \<longleftrightarrow>
              1 \<le> i \<and> i \<le> int n \<and>
              (\<forall>g \<in> set groups. nat (i - 1) < length (group_values g) \<longrightarrow>
                 \<not> (wants_minimum g \<and> fl_lt (group_values g ! nat (i - 1)) (min_limit g)) \<and>
                 \<not> (wants_maximum g \<and> fl_gt (group_values g ! nat (i - 1)) (max_limit g)))"
    unfolding mx by blast
  have "i \<in> set r \<longleftrightarrow>
              1 \<le> i \<and> i \<le> int n \<and>
              (\<forall>g \<in> set groups.
                 (wants_minimum g \<longrightarrow> fl_ge (group_values g ! nat (i - 1)) (min_limit g)) \<and>
                 (wants_maximum g \<longrightarrow> fl_le (group_values g ! nat (i - 1)) (max_limit g)))" for i
  proof (cases "1 \<le> i \<and> i \<le> int n")
    case True
    have "(\<not> (wants_minimum g \<and> fl_lt (group_values g ! nat (i - 1)) (min_limit g)) \<and>
           \<not> (wants_maximum g \<and> fl_gt (group_values g ! nat (i - 1)) (max_limit g))) \<longleftrightarrow>
          ((wants_minimum g \<longrightarrow> fl_ge (group_values g ! nat (i - 1)) (min_limit g)) \<and>
           (wants_maximum g \<longrightarrow> fl_le (group_values g ! nat (i - 1)) (max_limit g)))"
      and "nat (i - 1) < length (group_values g)"
      if "g \<in> set groups" for g
    proof -
      show lt: "nat (i - 1) < length (group_values g)" using True assms(2) that by auto
      then have "group_values g ! nat (i - 1) \<in> set (group_values g)" by simp
      with assms(3) that have "group_values g ! nat (i - 1) \<noteq> NaN" by metis
      moreover have "min_limit g \<noteq> NaN" "max_limit g \<noteq> NaN" using assms(3) that by auto
      ultimately show "(\<not> (wants_minimum g \<and> fl_lt (group_values g ! nat (i - 1)) (min_limit g)) \<and>
           \<not> (wants_maximum g \<and> fl_gt (group_values g ! nat (i - 1)) (max_limit g))) \<longleftrightarrow>
          ((wants_minimum g \<longrightarrow> fl_ge (group_values g ! nat (i - 1)) (min_limit g)) \<and>
           (wants_maximum g \<longrightarrow> fl_le (group_values g ! nat (i - 1)) (max_limit g)))"
        by (simp add: fl_lt_iff_not_ge fl_gt_iff_not_le)
    qed
    with r(3) True show ?thesis by auto
  next
    case False
    with r(3) show ?thesis by auto
  qed
  with r(1,2) show ?thesis by blast
qed

text \<open>
  Claim C2. The claim keeps an object only if its value is at least every active
  minimum and at most every active maximum, and the module's help says so too. On a
  NaN the code does otherwise: \<^verbatim>\<open>values < low_limit\<close> is false there, so the object stays,
  although \<open>NaN \<ge> 0\<close> is false as well. The first object of the vector below is
  returned in both eras.
\<close>

theorem limits_keep_NaN:
  "keep_within_limits Legacy
     [\<lparr>group_values = [NaN, Finite 5], wants_minimum = True, min_limit = Finite 0,
       wants_maximum = False, max_limit = Finite 1\<rparr>] = Inr [1, 2] \<and>
   keep_within_limits Current
     [\<lparr>group_values = [NaN, Finite 5], wants_minimum = True, min_limit = Finite 0,
       wants_maximum = False, max_limit = Finite 1\<rparr>] = Inr [1, 2] \<and>
   \<not> fl_ge NaN (Finite 0)"
  by code_simp

subsection \<open>\<^verbatim>\<open>keep_per_object\<close>\<close>

lemma map_err_Inr_map:
  "map_err f xs = Inr ys \<Longrightarrow> length ys = length xs \<and> (\<forall>k < length xs. f (xs ! k) = Inr (ys ! k))"
proof (induction xs arbitrary: ys)
  case Nil
  then show ?case by simp
next
  case (Cons x xs)
  then obtain y ys' where y: "f x = Inr y" "map_err f xs = Inr ys'" "ys = y # ys'"
    by (auto split: sum.splits)
  with Cons.IH[OF y(2)] show ?case by (auto simp: nth_Cons')
qed

lemma pixel_at_Inr:
  "pixel_at labels p = Inr v \<longleftrightarrow>
     fst p < length labels \<and> snd p < length (labels ! fst p) \<and> v = labels ! fst p ! snd p"
  by (auto simp: pixel_at_def)

lemma pixel_at_in_labels: "pixel_at labels p = Inr v \<Longrightarrow> v \<in> set (concat labels)"
proof -
  assume "pixel_at labels p = Inr v"
  then have "labels ! fst p \<in> set labels" "v \<in> set (labels ! fst p)"
    by (auto simp: pixel_at_Inr)
  then show ?thesis by auto
qed

lemma found_in_labels:
  assumes "map_err (pixel_at labels) ps = Inr found"
  shows "set found \<subseteq> set (concat labels)"
proof
  fix v assume "v \<in> set found"
  then obtain k where k: "k < length found" "found ! k = v" by (auto simp: in_set_conv_nth)
  with map_err_Inr_map[OF assms] have "pixel_at labels (ps ! k) = Inr v" by auto
  then show "v \<in> set (concat labels)" by (rule pixel_at_in_labels)
qed

lemma drop_leading_zero_sorted:
  "sorted_wrt (<) xs \<Longrightarrow> sorted_wrt (<) (drop_leading_zero xs)"
  by (cases xs) (auto simp: drop_leading_zero_def)

lemma drop_leading_zero_subset: "set (drop_leading_zero xs) \<subseteq> set xs"
  by (cases xs) (auto simp: drop_leading_zero_def)

lemma drop_leading_zero_set:
  assumes "sorted_wrt (<) xs" and nn: "\<forall>x \<in> set xs. 0 \<le> x"
  shows "set (drop_leading_zero xs) = set xs - {0}"
proof -
  show ?thesis
  proof (cases xs)
    case Nil
    then show ?thesis by (simp add: drop_leading_zero_def)
  next
    case (Cons y ys)
    with assms have gt: "\<forall>z \<in> set ys. y < z" by simp
    show ?thesis
    proof (cases "y = 0")
      case True
      with gt have "0 \<notin> set ys" by auto
      with True Cons show ?thesis by (auto simp: drop_leading_zero_def)
    next
      case False
      with nn Cons have "0 < y" by auto
      with gt have "0 \<notin> set xs" using Cons by auto
      with False Cons show ?thesis by (auto simp: drop_leading_zero_def)
    qed
  qed
qed

lemma sort_remdups_strict: "sorted_wrt (<) (sort (remdups (xs :: int list)))"
  by (simp add: strict_sorted_iff)

lemma keep_per_object_Inr_cases:
  assumes "keep_per_object maxp minp wants_max vals src_labels enclosing_labels = Inr r"
  shows "r = [] \<or>
         (\<exists>ps found. map_err (pixel_at src_labels) ps = Inr found \<and>
            r = drop_leading_zero (sort (remdups found)))"
  using assms unfolding keep_per_object_def
  by (auto split: sum.splits if_splits)

lemma np_max_all_zero:
  assumes "concat labels \<noteq> []" "\<forall>v \<in> set (concat labels). v = 0"
  shows "np_max labels = Inr 0"
proof -
  have "Max (set (concat labels)) \<in> set (concat labels)"
    using assms(1) by (intro Max_in) simp_all
  with assms(2) have "Max (set (concat labels)) = 0" by blast
  with np_max_eq[OF assms(1)] show ?thesis by simp
qed

lemma keep_per_object_steps:
  assumes "np_max enclosing_labels = Inr m" "m \<noteq> 0"
    and "np_take (tricky_values wants_max vals) src_labels = Inr src_values"
    and "(if wants_max then maxp else minp) src_values enclosing_labels
           (map int [1..<nat (m + 1)]) = Inr ps"
    and "ps \<noteq> []"
    and "map_err (pixel_at src_labels) ps = Inr found"
  shows "keep_per_object maxp minp wants_max vals src_labels enclosing_labels =
           Inr (drop_leading_zero (sort (remdups found)))"
  using assms by (simp add: keep_per_object_def)

text \<open>
  Claim C7. A pixel with child label 0 gets the value \<open>-\<infinity>\<close> in a search for the maximum
  and \<open>+\<infinity>\<close> in a search for the minimum. An enclosing label matrix with pixels but
  no label gives the empty result. Every result is strictly increasing, so sorted
  and without repetition, holds only labels of the child matrix, and never holds 0
  when the child labels are non-negative. When the child labels lie in
  \<open>[0, len(values)]\<close> and the position function returns at least one position, all
  inside the child matrix, the result is returned and consists of the non-zero
  labels at those positions.
\<close>

theorem keep_per_object_indexes:
  "np_get (tricky_values wants_max vals) 0 = Inr (if wants_max then NegInf else PosInf) \<and>
   (concat enclosing_labels \<noteq> [] \<and> (\<forall>v \<in> set (concat enclosing_labels). v = 0) \<longrightarrow>
      keep_per_object maxp minp wants_max vals src_labels enclosing_labels = Inr []) \<and>
   (\<forall>r. keep_per_object maxp minp wants_max vals src_labels enclosing_labels = Inr r \<longrightarrow>
      sorted_wrt (<) r \<and> set r \<subseteq> set (concat src_labels) \<and>
      ((\<forall>v \<in> set (concat src_labels). 0 \<le> v) \<longrightarrow> 0 \<notin> set r)) \<and>
   (\<forall>m ps. np_max enclosing_labels = Inr m \<and> m \<noteq> 0 \<and>
          (\<forall>v \<in> set (concat src_labels). 0 \<le> v \<and> v \<le> int (length vals)) \<and>
          (if wants_max then maxp else minp)
             (map (map (\<lambda>v. tricky_values wants_max vals ! nat v)) src_labels)
             enclosing_labels (map int [1..<nat (m + 1)]) = Inr ps \<and>
          ps \<noteq> [] \<and>
          (\<forall>p \<in> set ps. fst p < length src_labels \<and> snd p < length (src_labels ! fst p)) \<longrightarrow>
      (\<exists>r. keep_per_object maxp minp wants_max vals src_labels enclosing_labels = Inr r \<and>
           set r = (\<lambda>p. src_labels ! fst p ! snd p) ` set ps - {0}))"
proof (intro conjI allI impI)
  show "np_get (tricky_values wants_max vals) 0 = Inr (if wants_max then NegInf else PosInf)"
    by (simp add: np_get_def np_position_def tricky_values_def)
next
  assume "concat enclosing_labels \<noteq> [] \<and> (\<forall>v \<in> set (concat enclosing_labels). v = 0)"
  then have "np_max enclosing_labels = Inr 0" by (intro np_max_all_zero) simp_all
  then show "keep_per_object maxp minp wants_max vals src_labels enclosing_labels = Inr []"
    by (simp add: keep_per_object_def)
next
  fix r
  assume r: "keep_per_object maxp minp wants_max vals src_labels enclosing_labels = Inr r"
  from keep_per_object_Inr_cases[OF r]
  consider "r = []"
    | ps found where "map_err (pixel_at src_labels) ps = Inr found"
        "r = drop_leading_zero (sort (remdups found))"
    by blast
  note cases = this
  show "sorted_wrt (<) r"
  proof (cases rule: cases)
    case 1
    then show ?thesis by simp
  next
    case (2 ps found)
    then show ?thesis by (simp only: drop_leading_zero_sorted[OF sort_remdups_strict])
  qed
  show "set r \<subseteq> set (concat src_labels)"
  proof (cases rule: cases)
    case 1
    then show ?thesis by simp
  next
    case (2 ps found)
    have "set r \<subseteq> set (sort (remdups found))"
      unfolding 2(2) by (rule drop_leading_zero_subset)
    with found_in_labels[OF 2(1)] show ?thesis by simp
  qed
  assume nn: "\<forall>v \<in> set (concat src_labels). 0 \<le> v"
  show "0 \<notin> set r"
  proof (cases rule: cases)
    case 1
    then show ?thesis by simp
  next
    case (2 ps found)
    have "\<forall>x \<in> set (sort (remdups found)). 0 \<le> x"
    proof
      fix x assume "x \<in> set (sort (remdups found))"
      then have "x \<in> set found" by simp
      with found_in_labels[OF 2(1)] have "x \<in> set (concat src_labels)" by blast
      with nn show "0 \<le> x" by blast
    qed
    from drop_leading_zero_set[OF sort_remdups_strict this]
    show ?thesis unfolding 2(2) by simp
  qed
next
  fix m ps
  assume a: "np_max enclosing_labels = Inr m \<and> m \<noteq> 0 \<and>
          (\<forall>v \<in> set (concat src_labels). 0 \<le> v \<and> v \<le> int (length vals)) \<and>
          (if wants_max then maxp else minp)
             (map (map (\<lambda>v. tricky_values wants_max vals ! nat v)) src_labels)
             enclosing_labels (map int [1..<nat (m + 1)]) = Inr ps \<and>
          ps \<noteq> [] \<and>
          (\<forall>p \<in> set ps. fst p < length src_labels \<and> snd p < length (src_labels ! fst p))"
  let ?tv = "tricky_values wants_max vals"
  have len: "int (length ?tv) = int (length vals) + 1" by (simp add: tricky_values_def)
  from a have nn: "\<forall>v \<in> set (concat src_labels). 0 \<le> v \<and> v \<le> int (length vals)"
    by blast
  have rng: "\<forall>v \<in> set (concat src_labels). - int (length ?tv) \<le> v \<and> v < int (length ?tv)"
  proof
    fix v assume "v \<in> set (concat src_labels)"
    with nn have "0 \<le> v" "v \<le> int (length vals)" by blast+
    then show "- int (length ?tv) \<le> v \<and> v < int (length ?tv)" using len by linarith
  qed
  have "map (map (\<lambda>v. ?tv ! nat (if v < 0 then v + int (length ?tv) else v))) src_labels =
        map (map (\<lambda>v. ?tv ! nat v)) src_labels"
  proof (rule map_map_cong_concat, rule ballI)
    fix v assume "v \<in> set (concat src_labels)"
    with nn have "0 \<le> v" by blast
    then show "?tv ! nat (if v < 0 then v + int (length ?tv) else v) = ?tv ! nat v" by simp
  qed
  with np_take_all_Inr[OF rng]
  have take: "np_take ?tv src_labels = Inr (map (map (\<lambda>v. ?tv ! nat v)) src_labels)"
    by simp
  have found: "map_err (pixel_at src_labels) ps = Inr (map (\<lambda>p. src_labels ! fst p ! snd p) ps)"
    by (rule map_err_all_Inr) (use a in \<open>simp add: pixel_at_def\<close>)
  from a have a1: "np_max enclosing_labels = Inr m" and a2: "m \<noteq> 0"
    and a3: "(if wants_max then maxp else minp)
             (map (map (\<lambda>v. ?tv ! nat v)) src_labels)
             enclosing_labels (map int [1..<nat (m + 1)]) = Inr ps"
    and a4: "ps \<noteq> []"
    by blast+
  have res: "keep_per_object maxp minp wants_max vals src_labels enclosing_labels =
      Inr (drop_leading_zero (sort (remdups (map (\<lambda>p. src_labels ! fst p ! snd p) ps))))"
    by (rule keep_per_object_steps[OF a1 a2 take a3 a4 found])
  have "\<forall>x \<in> set (sort (remdups (map (\<lambda>p. src_labels ! fst p ! snd p) ps))). 0 \<le> x"
  proof
    fix x assume "x \<in> set (sort (remdups (map (\<lambda>p. src_labels ! fst p ! snd p) ps)))"
    then have "x \<in> set (map (\<lambda>p. src_labels ! fst p ! snd p) ps)" by simp
    with found_in_labels[OF found] have "x \<in> set (concat src_labels)" by blast
    with nn show "0 \<le> x" by blast
  qed
  from drop_leading_zero_set[OF sort_remdups_strict this]
  have "set (drop_leading_zero (sort (remdups (map (\<lambda>p. src_labels ! fst p ! snd p) ps)))) =
        (\<lambda>p. src_labels ! fst p ! snd p) ` set ps - {0}"
    by simp
  with res show "\<exists>r. keep_per_object maxp minp wants_max vals src_labels enclosing_labels = Inr r \<and>
           set r = (\<lambda>p. src_labels ! fst p ! snd p) ` set ps - {0}"
    by blast
qed

text \<open>
  An instance: a 2 by 2 child matrix with the objects 1 and 2 of values 3 and 7
  inside one enclosing object. The maximum lies at row 0, column 1, and the position
  function used here answers that position for every enclosing label.
\<close>

theorem keep_per_object_indexes_witness:
  "keep_per_object (\<lambda>vs ls rng. Inr (map (\<lambda>l. (0, 1)) rng)) (\<lambda>vs ls rng. Inr (map (\<lambda>l. (0, 1)) rng))
     True [Finite 3, Finite 7] [[0, 2], [1, 0]] [[0, 0], [0, 0]] = Inr [] \<and>
   (\<exists>r. keep_per_object (\<lambda>vs ls rng. Inr (map (\<lambda>l. (0, 1)) rng))
          (\<lambda>vs ls rng. Inr (map (\<lambda>l. (0, 1)) rng))
          True [Finite 3, Finite 7] [[0, 2], [1, 0]] [[1, 1], [1, 1]] = Inr r \<and>
        set r = {2} \<and> sorted_wrt (<) r \<and> 0 \<notin> set r)"
proof
  let ?p = "\<lambda>(vs :: np_float list list) (ls :: raster) (rng :: int list).
              (Inr (map (\<lambda>l. (0 :: nat, 1 :: nat)) rng) :: py_error + (nat \<times> nat) list)"
  show "keep_per_object ?p ?p True [Finite 3, Finite 7] [[0, 2], [1, 0]] [[0, 0], [0, 0]] = Inr []"
    using keep_per_object_indexes[of True "[Finite 3, Finite 7]" "[[0, 0], [0, 0]]" ?p ?p
        "[[0, 2], [1, 0]]"]
    by simp
  note t = keep_per_object_indexes[of True "[Finite 3, Finite 7]" "[[1, 1], [1, 1]]" ?p ?p
        "[[0, 2], [1, 0]]"]
  have mx: "np_max [[1, 1], [1, 1]] = Inr 1"
    by (simp add: np_max_def)
  from t have "np_max [[1, 1], [1, 1]] = Inr 1 \<and> (1::int) \<noteq> 0 \<and>
          (\<forall>v \<in> set (concat [[0, 2], [1, 0]]). 0 \<le> v \<and> v \<le> int (length [Finite 3, Finite 7])) \<and>
          (if True then ?p else ?p)
             (map (map (\<lambda>v. tricky_values True [Finite 3, Finite 7] ! nat v)) [[0, 2], [1, 0]])
             [[1, 1], [1, 1]] (map int [1..<nat (1 + 1)]) = Inr [(0, 1)] \<and>
          [(0 :: nat, 1 :: nat)] \<noteq> [] \<and>
          (\<forall>p \<in> set [(0 :: nat, 1 :: nat)].
              fst p < length [[0, 2], [1, 0 :: int]] \<and> snd p < length ([[0, 2], [1, 0 :: int]] ! fst p)) \<longrightarrow>
      (\<exists>r. keep_per_object ?p ?p True [Finite 3, Finite 7] [[0, 2], [1, 0]] [[1, 1], [1, 1]] = Inr r \<and>
           set r = (\<lambda>p. [[0, 2], [1, 0]] ! fst p ! snd p) ` set [(0, 1)] - {0})"
    by blast
  then obtain r where r:
    "keep_per_object ?p ?p True [Finite 3, Finite 7] [[0, 2], [1, 0]] [[1, 1], [1, 1]] = Inr r"
    "set r = {2}"
    using mx by (auto simp: numeral_2_eq_2)
  from t r(1) have "sorted_wrt (<) r \<and> 0 \<notin> set r" by auto
  with r show "\<exists>r. keep_per_object ?p ?p True [Finite 3, Finite 7] [[0, 2], [1, 0]] [[1, 1], [1, 1]] = Inr r \<and>
        set r = {2} \<and> sorted_wrt (<) r \<and> 0 \<notin> set r"
    by blast
qed


subsection \<open>Whole passes\<close>

text \<open>
  Three passes of \<^verbatim>\<open>run\<close> on small label matrices. None of them uses the position
  functions, which are given as functions that raise.
\<close>

lemma run_single_maximum:
  "run Legacy (\<lambda>vs ls rng. Inl ValueError) (\<lambda>vs ls rng. Inl ValueError)
     \<lparr>rules_or_measurement = ROM_MEASUREMENTS, filter_choice = FI_MAXIMAL, rule_scores = [],
      measurements = [\<lparr>group_values = [Finite 10, Finite 50, Finite 30], wants_minimum = True,
                       min_limit = Finite 0, wants_maximum = True, max_limit = Finite 1\<rparr>],
      segmented = [[1, 2, 2], [3, 0, 0]], enclosing_segmented = [],
      additional_segmented = []\<rparr> =
   Inr ([0, 0, 1, 0], [[[0, 1, 1], [0, 0, 0]]])"
  by code_simp

lemma run_limits_with_additional_objects:
  "run Legacy (\<lambda>vs ls rng. Inl ValueError) (\<lambda>vs ls rng. Inl ValueError)
     \<lparr>rules_or_measurement = ROM_MEASUREMENTS, filter_choice = FI_LIMITS, rule_scores = [],
      measurements = [\<lparr>group_values = [Finite 5, Finite 15, Finite 25, Finite 35],
                       wants_minimum = True, min_limit = Finite 10,
                       wants_maximum = True, max_limit = Finite 30\<rparr>],
      segmented = [[1, 2], [3, 4]], enclosing_segmented = [],
      additional_segmented = [[[3, 3], [2, 9]]]\<rparr> =
   Inr ([0, 0, 1, 2, 0], [[[0, 1], [2, 0]], [[2, 2], [1, 0]]])"
  by code_simp

lemma run_limits_vector_longer_than_labels:
  "run Legacy (\<lambda>vs ls rng. Inl ValueError) (\<lambda>vs ls rng. Inl ValueError)
     \<lparr>rules_or_measurement = ROM_MEASUREMENTS, filter_choice = FI_LIMITS, rule_scores = [],
      measurements = [\<lparr>group_values = [Finite 15, Finite 15, Finite 15],
                       wants_minimum = True, min_limit = Finite 10,
                       wants_maximum = False, max_limit = Finite 30\<rparr>],
      segmented = [[1, 2], [0, 0]], enclosing_segmented = [],
      additional_segmented = []\<rparr> =
   Inl IndexError"
  by code_simp

end
